theory Spec2Isabelle
  imports Main "HOL-Library.Char_ord" "HOL-Library.List_Lexorder"
begin

section \<open>Python values used by the wizard\<close>

text \<open>
  A Python \<open>str\<close> is modelled as a \<open>string\<close> whose characters are read as the code
  points 0..255 (Latin-1), so that \<open>length\<close> counts code points as \<open>len\<close> does.
  The tables below are those of \<open>str.isalnum\<close> and \<open>str.lower\<close> on that range; a
  string with a code point above 255 has no counterpart here.
\<close>

definition ascii_alnum :: "char \<Rightarrow> bool" where
  "ascii_alnum c \<longleftrightarrow>
     c \<in> set ''0123456789ABCDEFGHIJKLMNOPQRSTUVWXYZabcdefghijklmnopqrstuvwxyz''"

definition latin1_alnum :: "char \<Rightarrow> bool" where
  "latin1_alnum c \<longleftrightarrow>
     (let n = (of_char c :: nat) in
        n = 170 \<or> n = 178 \<or> n = 179 \<or> n = 181 \<or> n = 185 \<or> n = 186
        \<or> (188 \<le> n \<and> n \<le> 190) \<or> (192 \<le> n \<and> n \<le> 214)
        \<or> (216 \<le> n \<and> n \<le> 246) \<or> 248 \<le> n)"

definition isalnum_char :: "char \<Rightarrow> bool" where
  "isalnum_char c \<longleftrightarrow> ascii_alnum c \<or> latin1_alnum c"

definition isalnum :: "string \<Rightarrow> bool" where
  \<comment> \<open>\<open>s.isalnum()\<close>: false on the empty string.\<close>
  "isalnum s \<longleftrightarrow> s \<noteq> [] \<and> list_all isalnum_char s"

definition replace :: "string \<Rightarrow> char \<Rightarrow> string \<Rightarrow> string" where
  \<comment> \<open>\<open>s.replace(old, new)\<close> for a one-character \<open>old\<close>.\<close>
  "replace s old new = concat (map (\<lambda>c. if c = old then new else [c]) s)"

definition lower_char :: "char \<Rightarrow> char" where
  "lower_char c =
     (let n = (of_char c :: nat) in
        if (65 \<le> n \<and> n \<le> 90) \<or> (192 \<le> n \<and> n \<le> 214) \<or> (216 \<le> n \<and> n \<le> 222)
        then char_of (n + 32) else c)"

definition lower :: "string \<Rightarrow> string" where
  "lower s = map lower_char s"

definition digit_char :: "nat \<Rightarrow> char" where
  "digit_char d = char_of (48 + d)"

fun str_nat :: "nat \<Rightarrow> string" where
  "str_nat n = (if n < 10 then [digit_char n] else str_nat (n div 10) @ [digit_char (n mod 10)])"

definition str_int :: "int \<Rightarrow> string" where
  \<comment> \<open>\<open>str(i)\<close>, as an f-string renders an \<open>int\<close>.\<close>
  "str_int i = (if i < 0 then CHR ''-'' # str_nat (nat (- i)) else str_nat (nat i))"

datatype pyval = PyNone | PyBool bool | PyStr string | PyList "string list"

datatype failure = IndexError | ZeroDivisionError | UntypedStore

fun index :: "'a list \<Rightarrow> 'a \<Rightarrow> nat option" where
  \<comment> \<open>\<open>xs.index(x)\<close>: the first position of \<open>x\<close>; \<open>None\<close> is the \<open>ValueError\<close>.\<close>
  "index [] x = None"
| "index (y # ys) x = (if y = x then Some 0 else map_option Suc (index ys x))"

section \<open>The configuration record and the system facts\<close>

text \<open>
  \<open>ZBMNotcursesTUI.state\<close> is a dictionary whose thirteen keys are all set by
  \<open>__init__\<close> and never removed, each holding values of one type; it is a record here.
  \<open>system_info\<close> comes from the input payload or from probing, so its keys may be
  missing: \<open>None\<close> is the missing key.
\<close>

record state =
  mode :: "string option"
  drives :: "string list"
  pool_name :: string
  raid_level :: string
  bootloader :: string
  compression :: string
  ashift :: string
  efi_size :: string
  swap_size :: string
  hostname :: string
  source_root :: string
  copy_home :: bool
  exclude_paths :: "string list"

record system_info =
  is_efi :: "bool option"
  ram_gb :: "int option"

definition initial_state :: state where
  \<comment> \<open>the dictionary literal of \<open>ZBMNotcursesTUI.__init__\<close>\<close>
  "initial_state =
     \<lparr> mode = None, drives = [], pool_name = ''zroot'', raid_level = ''none'',
       bootloader = ''zbm'', compression = ''zstd'', ashift = '''', efi_size = ''1G'',
       swap_size = ''8G'', hostname = '''', source_root = ''/'', copy_home = True,
       exclude_paths = [] \<rparr>"

record app =
  current_screen :: string
  app_state :: state
  app_system_info :: system_info
  devices :: "string list"

definition ZBMNotcursesTUI_init :: app where
  "ZBMNotcursesTUI_init =
     \<lparr> current_screen = ''welcome'', app_state = initial_state,
       app_system_info = \<lparr> is_efi = None, ram_gb = None \<rparr>, devices = [] \<rparr>"

section \<open>Key input\<close>

record ncinput =
  is_release :: bool
  ev_id :: "string option"

definition wait_for_key :: "ncinput \<Rightarrow> string" where
  \<comment> \<open>\<open>BaseScreen.wait_for_key\<close> on the event that \<open>getc_blocking\<close> delivered\<close>
  "wait_for_key ev =
     (if is_release ev then '''' else (case ev_id ev of Some k \<Rightarrow> k | None \<Rightarrow> ''''))"

definition key_enter :: "string \<Rightarrow> bool" where
  \<comment> \<open>\<open>key in ('\n', '\r')\<close>\<close>
  "key_enter key \<longleftrightarrow> key = [CHR 0x0A] \<or> key = [CHR 0x0D]"

section \<open>The Validation screen\<close>

record check =
  name :: string
  passed :: bool
  message :: string
  critical :: bool

record ValidationScreen =
  vs_state :: state
  vs_system_info :: system_info
  checks :: "check list"
  all_passed :: bool

definition ValidationScreen_init :: "state \<Rightarrow> system_info \<Rightarrow> ValidationScreen" where
  "ValidationScreen_init st si =
     \<lparr> vs_state = st, vs_system_info = si, checks = [], all_passed = False \<rparr>"

definition efi_check :: "system_info \<Rightarrow> check" where
  "efi_check si =
     (let is_efi = (case is_efi si of Some b \<Rightarrow> b | None \<Rightarrow> False) in
      \<lparr> name = ''EFI System Check'', passed = is_efi,
        message = (if is_efi then ''System is EFI'' else ''BIOS not supported''),
        critical = True \<rparr>)"

definition ram_check :: "system_info \<Rightarrow> check" where
  "ram_check si =
     (let ram_gb = (case ram_gb si of Some n \<Rightarrow> n | None \<Rightarrow> 0);
          ram_ok = (ram_gb \<ge> 2) in
      \<lparr> name = ''RAM Check'', passed = ram_ok,
        message = (if ram_ok then str_int ram_gb @ ''GB RAM available''
                   else ''Only '' @ str_int ram_gb @ ''GB RAM (need 2GB+)''),
        critical = True \<rparr>)"

definition drive_check :: "state \<Rightarrow> check" where
  "drive_check st =
     (let drives = drives st; drives_ok = (length drives > 0) in
      \<lparr> name = ''Drive Selection'', passed = drives_ok,
        message = (if drives_ok then str_nat (length drives) @ '' drive(s) selected''
                   else ''No drives selected''),
        critical = True \<rparr>)"

text \<open>
  The RAID check indexes the dictionary \<open>min_drives\<close> only after the test that the level
  is one of its three keys, so the lookup below is always defined.
\<close>

definition min_drives :: "string \<rightharpoonup> nat" where
  "min_drives = [''raidz1'' \<mapsto> 3, ''raidz2'' \<mapsto> 4, ''raidz3'' \<mapsto> 5]"

definition raid_check :: "state \<Rightarrow> check" where
  "raid_check st =
     (let drives = drives st; raid_level = raid_level st;
          (raid_ok, raid_msg) =
            (if raid_level = ''mirror'' \<and> length drives < 2
             then (False, ''Mirror requires 2+ drives'')
             else if raid_level \<in> set [''raidz1'', ''raidz2'', ''raidz3'']
             then (if length drives < the (min_drives raid_level)
                   then (False, raid_level @ '' requires ''
                                  @ str_nat (the (min_drives raid_level)) @ ''+ drives'')
                   else (True, ''RAID level: '' @ raid_level))
             else (True, ''RAID level: '' @ raid_level)) in
      \<lparr> name = ''RAID Configuration'', passed = raid_ok, message = raid_msg,
        critical = True \<rparr>)"

definition pool_check :: "state \<Rightarrow> check" where
  "pool_check st =
     (let pool_name = pool_name st;
          pool_ok = (length pool_name > 0
                     \<and> isalnum (replace (replace pool_name CHR ''_'' '''') CHR ''-'' '''')) in
      \<lparr> name = ''Pool Name'', passed = pool_ok,
        message = (if pool_ok then ''Pool name: '' @ pool_name else ''Invalid pool name''),
        critical = True \<rparr>)"

definition hostname_check :: "state \<Rightarrow> check" where
  "hostname_check st =
     (let hostname = hostname st; hostname_ok = (length hostname > 0) in
      \<lparr> name = ''Hostname'', passed = hostname_ok,
        message = (if hostname_ok then ''Hostname: '' @ hostname else ''Hostname not set''),
        critical = False \<rparr>)"

definition run_validations :: "ValidationScreen \<Rightarrow> ValidationScreen" where
  "run_validations vs =
     (let st = vs_state vs; si = vs_system_info vs;
          cs = [efi_check si, ram_check si, drive_check st, raid_check st, pool_check st]
               @ (if mode st = Some ''existing'' then [hostname_check st] else []) in
      vs \<lparr> checks := cs, all_passed := list_all passed (filter critical cs) \<rparr>)"

datatype 'a outcome = Waiting | Raised failure | Returned 'a "ncinput list"

text \<open>
  Every screen reads its keys from the events still to come. \<open>Waiting\<close> is a screen
  blocked in \<open>getc_blocking\<close> when the events have run out, \<open>Raised\<close> an exception
  leaving \<open>show\<close>, \<open>Returned r evs\<close> the returned value with the events not yet read.
  Drawing calls and pauses have no effect on the configuration or on the returned value
  and are left out, except for the one arithmetic step of the drawing code that can raise.
\<close>

fun ValidationScreen_keys :: "ValidationScreen \<Rightarrow> ncinput list \<Rightarrow> (string \<times> ValidationScreen) outcome" where
  "ValidationScreen_keys vs [] = Waiting"
| "ValidationScreen_keys vs (ev # evs) =
     (let key = wait_for_key ev in
      if key_enter key \<and> all_passed vs then Returned (''valid'', vs) evs
      else if key = ''escape'' then Returned (''back'', vs) evs
      else if lower key = ''q'' then Returned (''quit'', vs) evs
      else ValidationScreen_keys vs evs)"

definition ValidationScreen_show :: "ValidationScreen \<Rightarrow> ncinput list \<Rightarrow> (string \<times> ValidationScreen) outcome" where
  "ValidationScreen_show vs evs = ValidationScreen_keys (run_validations vs) evs"

section \<open>The Install screen\<close>

record InstallationScreen =
  is_state :: state
  steps :: "string list"
  current_step :: nat
  log_lines :: "string list"
  max_log_lines :: nat

definition InstallationScreen_init :: "state \<Rightarrow> InstallationScreen" where
  "InstallationScreen_init st =
     \<lparr> is_state = st, steps = [], current_step = 0, log_lines = [], max_log_lines = 10 \<rparr>"

definition init_steps :: "InstallationScreen \<Rightarrow> InstallationScreen" where
  "init_steps scr =
     (if mode (is_state scr) = Some ''existing''
      then scr \<lparr> steps :=
             [''Checking device fitness'',
              ''Preparing target drives'',
              ''Creating partitions'',
              ''Setting up ZFS pool'',
              ''Mounting filesystems'',
              ''Copying system files'',
              ''Zapping network configuration'',
              ''Installing bootloader'',
              ''Finalizing installation''] \<rparr>
      else scr \<lparr> steps :=
             [''Checking device fitness'',
              ''Preparing target drives'',
              ''Creating partitions'',
              ''Setting up ZFS pool'',
              ''Installing base system'',
              ''Installing bootloader'',
              ''Finalizing installation''] \<rparr>)"

definition add_log :: "InstallationScreen \<Rightarrow> string \<Rightarrow> InstallationScreen" where
  "add_log scr msg =
     (let ls = log_lines scr @ [msg] in
      scr \<lparr> log_lines := (if length ls > max_log_lines scr then tl ls else ls) \<rparr>)"

type_synonym frame = "nat \<times> string list"

text \<open>
  \<open>update_display\<close> draws one frame. Of the drawing code the division
  \<open>current_step / len(steps)\<close> is kept, which can raise, and of the frame drawn the two
  things that change from one frame to the next: the step counter and the log lines.
  \<open>show\<close> returns the frames it has drawn, in the order of drawing, beside its result.
\<close>

definition update_display :: "InstallationScreen \<Rightarrow> failure + frame" where
  "update_display scr =
     (if length (steps scr) = 0 then Inl ZeroDivisionError
      else Inr (current_step scr, log_lines scr))"

fun run_steps :: "InstallationScreen \<Rightarrow> (nat \<times> string) list
    \<Rightarrow> failure + (InstallationScreen \<times> frame list)" where
  \<comment> \<open>the loop \<open>for i, step in enumerate(self.steps)\<close>\<close>
  "run_steps scr [] = Inr (scr, [])"
| "run_steps scr ((i, step) # rest) =
     (let scr1 = add_log (scr \<lparr> current_step := i \<rparr>) (''Starting: '' @ step) in
      case update_display scr1 of Inl e \<Rightarrow> Inl e | Inr f1 \<Rightarrow>
        (let scr2 = add_log scr1 (''Completed: '' @ step) in
         case update_display scr2 of Inl e \<Rightarrow> Inl e | Inr f2 \<Rightarrow>
           (case run_steps scr2 rest of Inl e \<Rightarrow> Inl e
            | Inr (scr3, fs) \<Rightarrow> Inr (scr3, f1 # f2 # fs))))"

definition InstallationScreen_show :: "InstallationScreen
    \<Rightarrow> failure + (string \<times> InstallationScreen \<times> frame list)" where
  "InstallationScreen_show scr =
     (let scr1 = init_steps scr in
      case run_steps scr1 (List.enumerate 0 (steps scr1)) of Inl e \<Rightarrow> Inl e
      | Inr (scr2, fs) \<Rightarrow>
          (let scr3 = scr2 \<lparr> current_step := length (steps scr2) \<rparr> in
           case update_display scr3 of Inl e \<Rightarrow> Inl e
           | Inr f \<Rightarrow> Inr (''success'', scr3, fs @ [f])))"

section \<open>The Settings screen\<close>

datatype field_kind = Text | Choice "string list" | Bool

type_synonym field = "string \<times> string \<times> field_kind"

definition common_fields :: "field list" where
  "common_fields =
     [(''pool_name'', ''Pool Name'', Text),
      (''hostname'', ''Hostname'', Text),
      (''compression'', ''Compression'', Choice [''lz4'', ''zstd'', ''gzip-9'', ''off'']),
      (''raid_level'', ''RAID Level'', Choice [''none'', ''mirror'', ''raidz1'', ''raidz2'', ''raidz3'']),
      (''bootloader'', ''Bootloader'', Choice [''zbm'', ''systemd-boot'', ''refind'']),
      (''ashift'', ''Ashift'', Choice [''auto'', ''9'', ''12'', ''13'']),
      (''efi_size'', ''EFI Size'', Text),
      (''swap_size'', ''Swap Size'', Text)]"

record SettingsScreen =
  ss_state :: state
  ss_cursor :: nat
  ss_fields :: "field list"

definition SettingsScreen_init :: "state \<Rightarrow> SettingsScreen" where
  "SettingsScreen_init st =
     \<lparr> ss_state = st, ss_cursor = 0,
       ss_fields = (if mode st = Some ''existing''
                 then common_fields @ [(''source_root'', ''Source Root'', Text),
                                       (''copy_home'', ''Copy /home'', Bool)]
                 else common_fields) \<rparr>"

definition getitem :: "state \<Rightarrow> string \<Rightarrow> pyval option" where
  \<comment> \<open>the value under a key of the dictionary; \<open>None\<close> when the key is not one of the thirteen\<close>
  "getitem st k =
     (if k = ''mode'' then Some (case mode st of None \<Rightarrow> PyNone | Some m \<Rightarrow> PyStr m)
      else if k = ''drives'' then Some (PyList (drives st))
      else if k = ''pool_name'' then Some (PyStr (pool_name st))
      else if k = ''raid_level'' then Some (PyStr (raid_level st))
      else if k = ''bootloader'' then Some (PyStr (bootloader st))
      else if k = ''compression'' then Some (PyStr (compression st))
      else if k = ''ashift'' then Some (PyStr (ashift st))
      else if k = ''efi_size'' then Some (PyStr (efi_size st))
      else if k = ''swap_size'' then Some (PyStr (swap_size st))
      else if k = ''hostname'' then Some (PyStr (hostname st))
      else if k = ''source_root'' then Some (PyStr (source_root st))
      else if k = ''copy_home'' then Some (PyBool (copy_home st))
      else if k = ''exclude_paths'' then Some (PyList (exclude_paths st))
      else None)"

definition setitem_str :: "state \<Rightarrow> string \<Rightarrow> string \<Rightarrow> state option" where
  "setitem_str st k s =
     (if k = ''mode'' then Some (st \<lparr> mode := Some s \<rparr>)
      else if k = ''pool_name'' then Some (st \<lparr> pool_name := s \<rparr>)
      else if k = ''raid_level'' then Some (st \<lparr> raid_level := s \<rparr>)
      else if k = ''bootloader'' then Some (st \<lparr> bootloader := s \<rparr>)
      else if k = ''compression'' then Some (st \<lparr> compression := s \<rparr>)
      else if k = ''ashift'' then Some (st \<lparr> ashift := s \<rparr>)
      else if k = ''efi_size'' then Some (st \<lparr> efi_size := s \<rparr>)
      else if k = ''swap_size'' then Some (st \<lparr> swap_size := s \<rparr>)
      else if k = ''hostname'' then Some (st \<lparr> hostname := s \<rparr>)
      else if k = ''source_root'' then Some (st \<lparr> source_root := s \<rparr>)
      else None)"

definition setitem :: "state \<Rightarrow> string \<Rightarrow> pyval \<Rightarrow> state option" where
  \<comment> \<open>\<open>state[k] = v\<close>; \<open>None\<close> when the store would add a key or change the type of one,
      which the record cannot hold\<close>
  "setitem st k v =
     (case v of
        PyStr s \<Rightarrow> setitem_str st k s
      | PyBool b \<Rightarrow> (if k = ''copy_home'' then Some (st \<lparr> copy_home := b \<rparr>) else None)
      | PyNone \<Rightarrow> (if k = ''mode'' then Some (st \<lparr> mode := None \<rparr>) else None)
      | PyList xs \<Rightarrow> (if k = ''drives'' then Some (st \<lparr> drives := xs \<rparr>)
                     else if k = ''exclude_paths'' then Some (st \<lparr> exclude_paths := xs \<rparr>)
                     else None))"

definition truthy :: "pyval \<Rightarrow> bool" where
  "truthy v = (case v of PyNone \<Rightarrow> False | PyBool b \<Rightarrow> b | PyStr s \<Rightarrow> s \<noteq> [] | PyList xs \<Rightarrow> xs \<noteq> [])"

definition edit_text_field :: "state \<Rightarrow> string \<Rightarrow> ncinput \<Rightarrow> pyval option" where
  \<comment> \<open>reads one key; \<open>None\<close> is the cancelled edit\<close>
  "edit_text_field st field_key ev =
     (let current = (case getitem st field_key of Some v \<Rightarrow> v | None \<Rightarrow> PyStr '''') in
      if wait_for_key ev = ''escape'' then None else Some current)"

definition cycle_choice :: "state \<Rightarrow> string \<Rightarrow> string list \<Rightarrow> failure + string" where
  "cycle_choice st field_key choices =
     (case choices of
        [] \<Rightarrow> Inl IndexError
      | c0 # _ \<Rightarrow>
          (let current = (case getitem st field_key of Some v \<Rightarrow> v | None \<Rightarrow> PyStr c0);
               idx = (case index (map PyStr choices) current of
                        Some i \<Rightarrow> (i + 1) mod length choices
                      | None \<Rightarrow> 0)
           in Inr (choices ! idx)))"

definition toggle_bool :: "state \<Rightarrow> string \<Rightarrow> bool" where
  "toggle_bool st field_key =
     (\<not> truthy (case getitem st field_key of Some v \<Rightarrow> v | None \<Rightarrow> PyBool True))"

definition store :: "SettingsScreen \<Rightarrow> string \<Rightarrow> pyval \<Rightarrow> failure + SettingsScreen" where
  \<comment> \<open>\<open>self.state[field_key] = v\<close>\<close>
  "store scr field_key v =
     (case setitem (ss_state scr) field_key v of
        None \<Rightarrow> Inl UntypedStore
      | Some st' \<Rightarrow> Inr (scr \<lparr> ss_state := st' \<rparr>))"

definition edit_choice :: "SettingsScreen \<Rightarrow> string \<Rightarrow> string list \<Rightarrow> failure + SettingsScreen" where
  \<comment> \<open>\<open>self.state[field_key] = self.cycle_choice(field_key, choices)\<close>\<close>
  "edit_choice scr field_key choices =
     (case cycle_choice (ss_state scr) field_key choices of
        Inl e \<Rightarrow> Inl e
      | Inr v \<Rightarrow> store scr field_key (PyStr v))"

fun SettingsScreen_show :: "SettingsScreen \<Rightarrow> ncinput list \<Rightarrow> (string \<times> SettingsScreen) outcome" where
  "SettingsScreen_show scr [] = Waiting"
| "SettingsScreen_show scr (ev # evs) =
     (let key = wait_for_key ev; n = length (ss_fields scr) in
      if lower key = ''c'' then Returned (''next'', scr) evs
      else if key = '' '' \<or> key = [CHR 0x0A] \<or> key = [CHR 0x0D] then
        (if ss_cursor scr \<ge> n then Raised IndexError
         else
           (case ss_fields scr ! ss_cursor scr of
              (field_key, field_label, Text) \<Rightarrow>
                (case evs of
                   [] \<Rightarrow> Waiting
                 | ev2 # evs2 \<Rightarrow>
                     (case edit_text_field (ss_state scr) field_key ev2 of
                        None \<Rightarrow> SettingsScreen_show scr evs2
                      | Some result \<Rightarrow>
                          (case store scr field_key result of
                             Inl e \<Rightarrow> Raised e
                           | Inr scr' \<Rightarrow> SettingsScreen_show scr' evs2)))
            | (field_key, field_label, Choice choices) \<Rightarrow>
                (case edit_choice scr field_key choices of
                   Inl e \<Rightarrow> Raised e
                 | Inr scr' \<Rightarrow> SettingsScreen_show scr' evs)
            | (field_key, field_label, Bool) \<Rightarrow>
                (case store scr field_key (PyBool (toggle_bool (ss_state scr) field_key)) of
                   Inl e \<Rightarrow> Raised e
                 | Inr scr' \<Rightarrow> SettingsScreen_show scr' evs)))
      else if key = ''j'' \<or> key = ''down'' then
        (if n = 0 then Raised ZeroDivisionError
         else SettingsScreen_show (scr \<lparr> ss_cursor := (ss_cursor scr + 1) mod n \<rparr>) evs)
      else if key = ''k'' \<or> key = ''up'' then
        (if n = 0 then Raised ZeroDivisionError
         else SettingsScreen_show
                (scr \<lparr> ss_cursor := nat ((int (ss_cursor scr) - 1) mod int n) \<rparr>) evs)
      else if key = ''escape'' then Returned (''back'', scr) evs
      else if lower key = ''q'' then Returned (''quit'', scr) evs
      else SettingsScreen_show scr evs)"

section \<open>The remaining screens\<close>

fun WelcomeScreen_show :: "ncinput list \<Rightarrow> string outcome" where
  "WelcomeScreen_show [] = Waiting"
| "WelcomeScreen_show (ev # evs) =
     (let key = wait_for_key ev in
      if key = [CHR 0x0A] \<or> key = [CHR 0x0D] \<or> key = '' '' then Returned ''next'' evs
      else if lower key = ''q'' then Returned ''quit'' evs
      else WelcomeScreen_show evs)"

definition modes :: "(string \<times> string \<times> string) list" where
  "modes =
     [(''new'', ''New Installation'', ''Install ZFS on empty drives (DESTROYS data)''),
      (''existing'', ''Migrate System'', ''Copy running system to new ZFS installation'')]"

fun ModeSelectionScreen_show :: "nat \<Rightarrow> ncinput list \<Rightarrow> string outcome" where
  \<comment> \<open>the first argument is \<open>self.selected\<close>, 0 in a new screen\<close>
  "ModeSelectionScreen_show selected [] = Waiting"
| "ModeSelectionScreen_show selected (ev # evs) =
     (let key = wait_for_key ev in
      if key = [CHR 0x0A] \<or> key = [CHR 0x0D] then
        (if selected < length modes then Returned (fst (modes ! selected)) evs
         else Raised IndexError)
      else if key = ''j'' \<or> key = ''down'' then
        ModeSelectionScreen_show ((selected + 1) mod length modes) evs
      else if key = ''k'' \<or> key = ''up'' then
        ModeSelectionScreen_show (nat ((int selected - 1) mod int (length modes))) evs
      else if key = ''escape'' then Returned ''back'' evs
      else if lower key = ''q'' then Returned ''quit'' evs
      else ModeSelectionScreen_show selected evs)"

text \<open>
  The devices dictionary is kept as the list of its keys. The Python set of selected
  drives is a list without repetitions; the order in which \<open>list(...)\<close> enumerates it
  is not fixed by Python and is the order of insertion here.
\<close>

record DeviceSelectionScreen =
  selected_drives :: "string list"
  ds_cursor :: nat
  device_list :: "string list"

definition DeviceSelectionScreen_init :: "string list \<Rightarrow> string list \<Rightarrow> DeviceSelectionScreen" where
  "DeviceSelectionScreen_init devs selected =
     \<lparr> selected_drives = remdups selected, ds_cursor = 0, device_list = sort (remdups devs) \<rparr>"

fun DeviceSelectionScreen_show :: "DeviceSelectionScreen \<Rightarrow> ncinput list \<Rightarrow> pyval outcome" where
  "DeviceSelectionScreen_show scr [] = Waiting"
| "DeviceSelectionScreen_show scr (ev # evs) =
     (let key = wait_for_key ev; n = length (device_list scr) in
      if key = [CHR 0x0A] \<or> key = [CHR 0x0D] then
        (if length (selected_drives scr) > 0 then Returned (PyList (selected_drives scr)) evs
         else DeviceSelectionScreen_show scr evs)
      else if key = '' '' then
        (if device_list scr \<noteq> [] then
           (if ds_cursor scr \<ge> n then Raised IndexError
            else
              (let dev = device_list scr ! ds_cursor scr in
               if dev \<in> set (selected_drives scr)
               then DeviceSelectionScreen_show
                      (scr \<lparr> selected_drives := removeAll dev (selected_drives scr) \<rparr>) evs
               else DeviceSelectionScreen_show
                      (scr \<lparr> selected_drives := selected_drives scr @ [dev] \<rparr>) evs))
         else DeviceSelectionScreen_show scr evs)
      else if key = ''j'' \<or> key = ''down'' then
        (if device_list scr \<noteq> []
         then DeviceSelectionScreen_show (scr \<lparr> ds_cursor := (ds_cursor scr + 1) mod n \<rparr>) evs
         else DeviceSelectionScreen_show scr evs)
      else if key = ''k'' \<or> key = ''up'' then
        (if device_list scr \<noteq> []
         then DeviceSelectionScreen_show
                (scr \<lparr> ds_cursor := nat ((int (ds_cursor scr) - 1) mod int n) \<rparr>) evs
         else DeviceSelectionScreen_show scr evs)
      else if key = ''escape'' then Returned (PyStr ''back'') evs
      else if lower key = ''q'' then Returned (PyStr ''quit'') evs
      else DeviceSelectionScreen_show scr evs)"

fun ConfirmationScreen_show :: "ncinput list \<Rightarrow> string outcome" where
  "ConfirmationScreen_show [] = Waiting"
| "ConfirmationScreen_show (ev # evs) =
     (let key = wait_for_key ev in
      if lower key = ''y'' then Returned ''proceed'' evs
      else if lower key = ''n'' \<or> key = ''escape'' then Returned ''back'' evs
      else if lower key = ''q'' then Returned ''quit'' evs
      else ConfirmationScreen_show evs)"

fun CompletionScreen_show :: "ncinput list \<Rightarrow> string outcome" where
  "CompletionScreen_show [] = Waiting"
| "CompletionScreen_show (ev # evs) = Returned ''quit'' evs"

section \<open>The orchestrator\<close>

datatype iteration = Break | Blocked | Crash failure | Next app "ncinput list"

text \<open>
  One pass through the body of the \<open>while True\<close> loop of \<open>ZBMNotcursesTUI.run\<close>:
  \<open>Break\<close> leaves the loop, \<open>Next a evs\<close> starts the next pass, \<open>Blocked\<close> is a screen
  still waiting for a key, \<open>Crash\<close> an exception that \<open>run\<close> does not catch.
\<close>

definition run_iter :: "app \<Rightarrow> ncinput list \<Rightarrow> iteration" where
  "run_iter a evs =
     (if current_screen a = ''welcome'' then
        (case WelcomeScreen_show evs of
           Waiting \<Rightarrow> Blocked | Raised e \<Rightarrow> Crash e
         | Returned result evs' \<Rightarrow>
             if result = ''quit'' then Break
             else Next (a \<lparr> current_screen := ''mode_select'' \<rparr>) evs')
      else if current_screen a = ''mode_select'' then
        (case ModeSelectionScreen_show 0 evs of
           Waiting \<Rightarrow> Blocked | Raised e \<Rightarrow> Crash e
         | Returned result evs' \<Rightarrow>
             if result = ''back'' then Next (a \<lparr> current_screen := ''welcome'' \<rparr>) evs'
             else if result = ''new'' \<or> result = ''existing'' then
               Next (a \<lparr> app_state := (app_state a) \<lparr> mode := Some result \<rparr>,
                         current_screen := ''device_select'' \<rparr>) evs'
             else if result = ''quit'' then Break
             else Next a evs')
      else if current_screen a = ''device_select'' then
        (case DeviceSelectionScreen_show
                (DeviceSelectionScreen_init (devices a) (drives (app_state a))) evs of
           Waiting \<Rightarrow> Blocked | Raised e \<Rightarrow> Crash e
         | Returned result evs' \<Rightarrow>
             if result = PyStr ''back'' then Next (a \<lparr> current_screen := ''mode_select'' \<rparr>) evs'
             else if result = PyStr ''quit'' then Break
             else (case result of
                     PyList xs \<Rightarrow>
                       Next (a \<lparr> app_state := (app_state a) \<lparr> drives := xs \<rparr>,
                                 current_screen := ''settings'' \<rparr>) evs'
                   | _ \<Rightarrow> Next a evs'))
      else if current_screen a = ''settings'' then
        (case SettingsScreen_show (SettingsScreen_init (app_state a)) evs of
           Waiting \<Rightarrow> Blocked | Raised e \<Rightarrow> Crash e
         | Returned (result, scr) evs' \<Rightarrow>
             (let a' = a \<lparr> app_state := ss_state scr \<rparr> in
              if result = ''back'' then Next (a' \<lparr> current_screen := ''device_select'' \<rparr>) evs'
              else if result = ''quit'' then Break
              else if result = ''next'' then Next (a' \<lparr> current_screen := ''validation'' \<rparr>) evs'
              else Next a' evs'))
      else if current_screen a = ''validation'' then
        (case ValidationScreen_show
                (ValidationScreen_init (app_state a) (app_system_info a)) evs of
           Waiting \<Rightarrow> Blocked | Raised e \<Rightarrow> Crash e
         | Returned (result, scr) evs' \<Rightarrow>
             (let a' = a \<lparr> app_state := vs_state scr \<rparr> in
              if result = ''back'' then Next (a' \<lparr> current_screen := ''settings'' \<rparr>) evs'
              else if result = ''quit'' then Break
              else if result = ''valid'' then Next (a' \<lparr> current_screen := ''confirm'' \<rparr>) evs'
              else Next a' evs'))
      else if current_screen a = ''confirm'' then
        (case ConfirmationScreen_show evs of
           Waiting \<Rightarrow> Blocked | Raised e \<Rightarrow> Crash e
         | Returned result evs' \<Rightarrow>
             if result = ''back'' then Next (a \<lparr> current_screen := ''validation'' \<rparr>) evs'
             else if result = ''quit'' then Break
             else if result = ''proceed'' then Next (a \<lparr> current_screen := ''install'' \<rparr>) evs'
             else Next a evs')
      else if current_screen a = ''install'' then
        (case InstallationScreen_show (InstallationScreen_init (app_state a)) of
           Inl e \<Rightarrow> Crash e
         | Inr (result, scr, frames) \<Rightarrow>
             (let a' = a \<lparr> app_state := is_state scr \<rparr> in
              if result = ''success'' then Next (a' \<lparr> current_screen := ''complete'' \<rparr>) evs
              else if result = ''failed'' then Next (a' \<lparr> current_screen := ''settings'' \<rparr>) evs
              else if result = ''quit'' then Break
              else Next a' evs))
      else if current_screen a = ''complete'' then
        (case CompletionScreen_show evs of
           Waiting \<Rightarrow> Blocked | Raised e \<Rightarrow> Crash e
         | Returned result evs' \<Rightarrow> Break)
      else Break)"

section \<open>Auxiliary notions for the properties\<close>

definition validate :: "state \<Rightarrow> system_info \<Rightarrow> ValidationScreen" where
  \<comment> \<open>the screen object after the checks that \<open>show\<close> runs on entry\<close>
  "validate st si = run_validations (ValidationScreen_init st si)"

fun cycle_times :: "nat \<Rightarrow> SettingsScreen \<Rightarrow> string \<Rightarrow> string list \<Rightarrow> failure + SettingsScreen" where
  \<comment> \<open>the choice edit applied \<open>n\<close> times in a row to one field\<close>
  "cycle_times 0 scr field_key choices = Inr scr"
| "cycle_times (Suc n) scr field_key choices =
     (case edit_choice scr field_key choices of
        Inl e \<Rightarrow> Inl e
      | Inr scr' \<Rightarrow> cycle_times n scr' field_key choices)"

definition pool_char :: "char \<Rightarrow> bool" where
  \<comment> \<open>the character class \<open>[A-Za-z0-9_-]\<close>\<close>
  "pool_char c \<longleftrightarrow> ascii_alnum c \<or> c = CHR ''_'' \<or> c = CHR ''-''"

definition press :: "string \<Rightarrow> ncinput" where
  \<comment> \<open>the event of pressing a key\<close>
  "press k = \<lparr> is_release = False, ev_id = Some k \<rparr>"

definition raid_table :: "(string \<times> nat \<times> string) list" where
  \<comment> \<open>RAID level, its minimum number of drives, the message of the failed check\<close>
  "raid_table =
     [(''mirror'', 2, ''Mirror requires 2+ drives''),
      (''raidz1'', 3, ''raidz1 requires 3+ drives''),
      (''raidz2'', 4, ''raidz2 requires 4+ drives''),
      (''raidz3'', 5, ''raidz3 requires 5+ drives'')]"

definition sample_facts :: system_info where
  \<comment> \<open>an EFI machine with 4 GB of memory\<close>
  "sample_facts = \<lparr> is_efi = Some True, ram_gb = Some 4 \<rparr>"

definition at_screen :: "string \<Rightarrow> state \<Rightarrow> system_info \<Rightarrow> app" where
  \<comment> \<open>the application at a given screen, with no devices listed\<close>
  "at_screen s st si =
     \<lparr> current_screen = s, app_state = st, app_system_info = si, devices = [] \<rparr>"

definition str_keys :: "string list" where
  \<comment> \<open>the keys of the configuration that hold a string\<close>
  "str_keys = [''mode'', ''pool_name'', ''raid_level'', ''bootloader'', ''compression'',
     ''ashift'', ''efi_size'', ''swap_size'', ''hostname'', ''source_root'']"


definition full_log :: "string list \<Rightarrow> string list" where
  \<comment> \<open>the messages of a run through the given steps, in the order in which they are logged\<close>
  "full_log ss = concat (map (\<lambda>s. [''Starting: '' @ s, ''Completed: '' @ s]) ss)"

definition last_lines :: "nat \<Rightarrow> string list \<Rightarrow> string list" where
  \<comment> \<open>the last \<open>n\<close> entries of a list, all of them when there are fewer\<close>
  "last_lines n xs = drop (length xs - n) xs"

declare str_nat.simps [simp del]

section \<open>Facts about the Validation screen\<close>

lemma checks_validate:
  "checks (validate st si) =
     [efi_check si, ram_check si, drive_check st, raid_check st, pool_check st]
     @ (if mode st = Some ''existing'' then [hostname_check st] else [])"
  by (simp add: validate_def run_validations_def ValidationScreen_init_def Let_def)

lemma all_passed_validate:
  "all_passed (validate st si) \<longleftrightarrow>
     passed (efi_check si) \<and> passed (ram_check si) \<and> passed (drive_check st)
     \<and> passed (raid_check st) \<and> passed (pool_check st)"
  by (simp add: validate_def run_validations_def ValidationScreen_init_def Let_def
      efi_check_def ram_check_def drive_check_def raid_check_def pool_check_def hostname_check_def
      split: prod.splits)

lemma all_passed_run:
  "all_passed (run_validations vs) \<longleftrightarrow>
     (\<forall>c \<in> set (checks (run_validations vs)). critical c \<longrightarrow> passed c)"
  by (auto simp: run_validations_def Let_def list_all_iff)

lemma vs_state_run: "vs_state (run_validations vs) = vs_state vs"
  by (simp add: run_validations_def Let_def)

lemma keys_result:
  "ValidationScreen_keys vs evs = Returned (r, vs') evs' \<Longrightarrow>
     vs' = vs \<and> (r = ''valid'' \<longrightarrow> all_passed vs)
     \<and> (r = ''valid'' \<or> r = ''back'' \<or> r = ''quit'')"
  by (induction evs) (auto simp: Let_def split: if_splits)

lemma show_result:
  assumes "ValidationScreen_show vs evs = Returned (r, vs') evs'"
  shows "vs' = run_validations vs" and "r = ''valid'' \<Longrightarrow> all_passed (run_validations vs)"
    and "r = ''valid'' \<or> r = ''back'' \<or> r = ''quit''"
  using keys_result [of "run_validations vs" evs r vs' evs'] assms
  by (auto simp: ValidationScreen_show_def)

lemma run_iter_validation:
  assumes "current_screen a = ''validation''"
  shows "run_iter a evs =
     (case ValidationScreen_show (ValidationScreen_init (app_state a) (app_system_info a)) evs of
        Waiting \<Rightarrow> Blocked | Raised e \<Rightarrow> Crash e
      | Returned (result, scr) evs' \<Rightarrow>
          (let a' = a \<lparr> app_state := vs_state scr \<rparr> in
           if result = ''back'' then Next (a' \<lparr> current_screen := ''settings'' \<rparr>) evs'
           else if result = ''quit'' then Break
           else if result = ''valid'' then Next (a' \<lparr> current_screen := ''confirm'' \<rparr>) evs'
           else Next a' evs'))"
  using assms by (simp add: run_iter_def)

lemma run_iter_validation_next:
  assumes "current_screen a = ''validation''" and "run_iter a evs = Next a' evs'"
  shows "\<exists>r scr. ValidationScreen_show (ValidationScreen_init (app_state a) (app_system_info a)) evs
                   = Returned (r, scr) evs'
          \<and> a' = a \<lparr> app_state := vs_state scr,
                      current_screen := (if r = ''back'' then ''settings''
                                         else if r = ''valid'' then ''confirm''
                                         else ''validation'') \<rparr>"
proof (cases "ValidationScreen_show (ValidationScreen_init (app_state a) (app_system_info a)) evs")
  case Waiting
  with assms show ?thesis by (simp add: run_iter_validation)
next
  case (Raised e)
  with assms show ?thesis by (simp add: run_iter_validation)
next
  case (Returned p es)
  obtain r scr where p: "p = (r, scr)" by (cases p)
  from assms Returned p show ?thesis
    by (auto simp: run_iter_validation Let_def split: if_splits)
qed

lemma confirmation_result:
  "ConfirmationScreen_show evs = Returned r evs' \<Longrightarrow> r = ''proceed'' \<or> r = ''back'' \<or> r = ''quit''"
  by (induction evs) (auto simp: Let_def split: if_splits)

lemma run_iter_enters_confirm:
  assumes "run_iter a evs = Next a' evs'" and "current_screen a' = ''confirm''"
  shows "current_screen a = ''validation''"
proof -
  consider (s1) "current_screen a = ''welcome''"
    | (s2) "current_screen a = ''mode_select''"
    | (s3) "current_screen a = ''device_select''"
    | (s4) "current_screen a = ''settings''"
    | (s5) "current_screen a = ''validation''"
    | (s6) "current_screen a = ''confirm''"
    | (s7) "current_screen a = ''install''"
    | (s8) "current_screen a = ''complete''"
    | (s9) "current_screen a \<notin> {''welcome'', ''mode_select'', ''device_select'', ''settings'',
         ''validation'', ''confirm'', ''install'', ''complete''}"
    by blast
  then show ?thesis
  proof cases
    case s1
    with assms show ?thesis
      by (auto simp: run_iter_def split: outcome.splits if_splits)
  next
    case s2
    with assms show ?thesis
      by (auto simp: run_iter_def split: outcome.splits if_splits)
  next
    case s3
    with assms show ?thesis
      by (auto simp: run_iter_def split: outcome.splits if_splits pyval.splits)
  next
    case s4
    with assms show ?thesis
      by (auto simp: run_iter_def Let_def split: outcome.splits if_splits prod.splits)
  next
    case s5
    then show ?thesis .
  next
    case s6
    with assms confirmation_result [of evs] show ?thesis
      by (auto simp: run_iter_def split: outcome.splits if_splits)
  next
    case s7
    with assms show ?thesis
      by (auto simp: run_iter_def Let_def split: sum.splits if_splits prod.splits)
  next
    case s8
    with assms show ?thesis
      by (auto simp: run_iter_def split: outcome.splits)
  next
    case s9
    with assms show ?thesis
      by (simp add: run_iter_def)
  qed
qed

lemma min_drives_defined:
  "lvl \<in> set [''raidz1'', ''raidz2'', ''raidz3''] \<Longrightarrow> min_drives lvl \<noteq> None"
  by (auto simp: min_drives_def)

lemma raid_check_fields:
  "name (raid_check st) = ''RAID Configuration''" "critical (raid_check st)"
  by (simp_all add: raid_check_def Let_def split: prod.splits)

lemma raid_check_mirror:
  assumes "raid_level st = ''mirror''"
  shows "passed (raid_check st) \<longleftrightarrow> 2 \<le> length (drives st)"
    and "length (drives st) < 2 \<Longrightarrow> message (raid_check st) = ''Mirror requires 2+ drives''"
  using assms by (auto simp: raid_check_def Let_def)

lemma raid_check_raidz:
  assumes "(raid_level st, m) \<in> {(''raidz1'', 3), (''raidz2'', 4), (''raidz3'', 5)}"
  shows "passed (raid_check st) \<longleftrightarrow> m \<le> length (drives st)"
    and "length (drives st) < m \<Longrightarrow>
           message (raid_check st) = raid_level st @ '' requires '' @ str_nat m @ ''+ drives''"
  using assms by (auto simp: raid_check_def Let_def min_drives_def)

lemma raid_check_other:
  assumes "raid_level st \<notin> {''mirror'', ''raidz1'', ''raidz2'', ''raidz3''}"
  shows "passed (raid_check st)"
  using assms by (auto simp: raid_check_def Let_def)

lemma str_nat_345: "str_nat 3 = ''3''" "str_nat 4 = ''4''" "str_nat 5 = ''5''"
  by code_simp+

lemma raid_check_table:
  assumes "(level, minimum, msg) \<in> set raid_table" and "raid_level st = level"
  shows "passed (raid_check st) \<longleftrightarrow> minimum \<le> length (drives st)"
    and "length (drives st) < minimum \<Longrightarrow> message (raid_check st) = msg"
proof -
  from assms(1) consider
      (mirror) "level = ''mirror''" "minimum = 2" "msg = ''Mirror requires 2+ drives''"
    | (raidz1) "level = ''raidz1''" "minimum = 3" "msg = ''raidz1 requires 3+ drives''"
    | (raidz2) "level = ''raidz2''" "minimum = 4" "msg = ''raidz2 requires 4+ drives''"
    | (raidz3) "level = ''raidz3''" "minimum = 5" "msg = ''raidz3 requires 5+ drives''"
    unfolding raid_table_def by fastforce
  then have "(passed (raid_check st) \<longleftrightarrow> minimum \<le> length (drives st))
     \<and> (length (drives st) < minimum \<longrightarrow> message (raid_check st) = msg)"
  proof cases
    case mirror
    with assms(2) raid_check_mirror [of st] show ?thesis by simp
  next
    case raidz1
    with assms(2) raid_check_raidz [of st 3] show ?thesis by (simp add: str_nat_345)
  next
    case raidz2
    with assms(2) raid_check_raidz [of st 4] show ?thesis by (simp add: str_nat_345)
  next
    case raidz3
    with assms(2) raid_check_raidz [of st 5] show ?thesis by (simp add: str_nat_345)
  qed
  then show "passed (raid_check st) \<longleftrightarrow> minimum \<le> length (drives st)"
    and "length (drives st) < minimum \<Longrightarrow> message (raid_check st) = msg"
    by simp_all
qed

section \<open>Facts about the Settings screen\<close>

lemma index_None_iff: "index xs x = None \<longleftrightarrow> x \<notin> set xs"
  by (induction xs) auto

lemma index_nth_distinct: "distinct xs \<Longrightarrow> i < length xs \<Longrightarrow> index xs (xs ! i) = Some i"
proof (induction xs arbitrary: i)
  case Nil
  then show ?case by simp
next
  case (Cons y ys)
  show ?case
  proof (cases i)
    case 0
    then show ?thesis by simp
  next
    case (Suc j)
    with Cons.prems have "ys ! j \<in> set ys" "y \<notin> set ys" "j < length ys" by auto
    then have "y \<noteq> ys ! j" by auto
    with Cons Suc show ?thesis by simp
  qed
qed

lemma index_map_PyStr: "index (map PyStr xs) (PyStr x) = index xs x"
  by (induction xs) auto

lemma setitem_str_key: "setitem_str st k s = Some st' \<Longrightarrow> k \<in> set str_keys"
  by (simp add: setitem_str_def str_keys_def split: if_splits)

lemma getitem_str_key: "getitem st k = Some (PyStr v) \<Longrightarrow> k \<in> set str_keys"
  by (simp add: getitem_def str_keys_def split: if_splits option.splits)

lemma str_key_cases:
  assumes "k \<in> set str_keys"
  obtains "k = ''mode''" | "k = ''pool_name''" | "k = ''raid_level''" | "k = ''bootloader''"
    | "k = ''compression''" | "k = ''ashift''" | "k = ''efi_size''" | "k = ''swap_size''"
    | "k = ''hostname''" | "k = ''source_root''"
  using assms unfolding str_keys_def by fastforce

lemma getitem_setitem_str:
  assumes "setitem_str st k s = Some st'"
  shows "getitem st' k = Some (PyStr s)"
  using setitem_str_key [OF assms] assms
  by (cases rule: str_key_cases) (auto simp: setitem_str_def getitem_def)

lemma setitem_str_overwrite:
  assumes "setitem_str st k s = Some st'"
  shows "setitem_str st' k u = setitem_str st k u"
  using setitem_str_key [OF assms] assms
  by (cases rule: str_key_cases) (auto simp: setitem_str_def)

lemma setitem_str_same:
  assumes "getitem st k = Some (PyStr v)"
  shows "setitem_str st k v = Some st"
  using getitem_str_key [OF assms] assms
  by (cases rule: str_key_cases) (auto simp: setitem_str_def getitem_def split: option.splits)

lemma setitem_str_defined:
  assumes "getitem st k = Some (PyStr v)"
  shows "\<exists>st'. setitem_str st k s = Some st'"
  using getitem_str_key [OF assms]
  by (cases rule: str_key_cases) (simp_all add: setitem_str_def)

lemma cycle_choice_in:
  assumes "distinct choices" and "i < length choices"
    and "getitem st k = Some (PyStr (choices ! i))"
  shows "cycle_choice st k choices = Inr (choices ! ((i + 1) mod length choices))"
proof -
  from assms(2) obtain c0 cs where c: "choices = c0 # cs" by (cases choices) auto
  have "index (map PyStr choices) (PyStr (choices ! i)) = Some i"
    using assms(1,2) by (simp add: index_map_PyStr index_nth_distinct)
  then show ?thesis
    using assms(3) unfolding cycle_choice_def c by (simp add: Let_def)
qed

lemma cycle_choice_out:
  assumes "choices \<noteq> []" and "getitem st k = Some v" and "v \<notin> PyStr ` set choices"
  shows "cycle_choice st k choices = Inr (choices ! 0)"
proof -
  from assms(1) obtain c0 cs where c: "choices = c0 # cs" by (cases choices) auto
  have "index (map PyStr choices) v = None"
    using assms(3) by (simp add: index_None_iff)
  then show ?thesis
    using assms(2) unfolding cycle_choice_def c by (simp add: Let_def)
qed

lemma edit_choice_in:
  assumes "distinct choices" and "i < length choices"
    and "getitem (ss_state scr) k = Some (PyStr (choices ! i))"
  shows "\<exists>st'. setitem_str (ss_state scr) k (choices ! ((i + 1) mod length choices)) = Some st'
           \<and> edit_choice scr k choices = Inr (scr \<lparr> ss_state := st' \<rparr>)"
proof -
  from setitem_str_defined [OF assms(3)] obtain st' where
    "setitem_str (ss_state scr) k (choices ! ((i + 1) mod length choices)) = Some st'"
    by blast
  then show ?thesis
    using cycle_choice_in [OF assms]
    by (simp add: edit_choice_def store_def setitem_def)
qed

lemma cycle_times_shift:
  assumes "distinct choices" and "i < length choices"
    and "getitem (ss_state scr) k = Some (PyStr (choices ! i))"
  shows "\<exists>st'. setitem_str (ss_state scr) k (choices ! ((i + n) mod length choices)) = Some st'
           \<and> cycle_times n scr k choices = Inr (scr \<lparr> ss_state := st' \<rparr>)"
  using assms(2,3)
proof (induction n arbitrary: scr i)
  case 0
  then show ?case by (simp add: setitem_str_same)
next
  case (Suc n)
  let ?N = "length choices"
  let ?j = "(i + 1) mod ?N"
  from edit_choice_in [OF assms(1) Suc.prems] obtain st1 where
    s1: "setitem_str (ss_state scr) k (choices ! ?j) = Some st1"
    and e: "edit_choice scr k choices = Inr (scr \<lparr> ss_state := st1 \<rparr>)"
    by blast
  let ?scr1 = "scr \<lparr> ss_state := st1 \<rparr>"
  from Suc.prems(1) have "0 < ?N" by (cases choices) auto
  then have j: "?j < ?N" by (rule mod_less_divisor)
  have g: "getitem (ss_state ?scr1) k = Some (PyStr (choices ! ?j))"
    using getitem_setitem_str [OF s1] by simp
  from Suc.IH [OF j g] obtain st' where
    s': "setitem_str st1 k (choices ! ((?j + n) mod ?N)) = Some st'"
    and c: "cycle_times n ?scr1 k choices = Inr (?scr1 \<lparr> ss_state := st' \<rparr>)"
    by auto
  have "(?j + n) mod ?N = (i + 1 + n) mod ?N" by (rule mod_add_left_eq)
  then have m: "(?j + n) mod ?N = (i + Suc n) mod ?N" by simp
  from s' have "setitem_str (ss_state scr) k (choices ! ((?j + n) mod ?N)) = Some st'"
    by (simp only: setitem_str_overwrite [OF s1])
  then have "setitem_str (ss_state scr) k (choices ! ((i + Suc n) mod ?N)) = Some st'"
    by (simp only: m)
  moreover from e c have "cycle_times (Suc n) scr k choices = Inr (scr \<lparr> ss_state := st' \<rparr>)"
    by simp
  ultimately show ?case by blast
qed

lemma cycle_times_wraps:
  assumes "distinct choices" and "v \<in> set choices"
    and "getitem (ss_state scr) k = Some (PyStr v)"
  shows "cycle_times (length choices) scr k choices = Inr scr"
proof -
  from assms(2) obtain i where i: "i < length choices" "choices ! i = v"
    by (auto simp: in_set_conv_nth)
  from cycle_times_shift [OF assms(1) i(1), of scr k "length choices"] assms(3) i(2)
  obtain st' where "setitem_str (ss_state scr) k (choices ! i) = Some st'"
    and c: "cycle_times (length choices) scr k choices = Inr (scr \<lparr> ss_state := st' \<rparr>)"
    using i(1) by auto
  moreover have "setitem_str (ss_state scr) k (choices ! i) = Some (ss_state scr)"
    using assms(3) i(2) by (simp add: setitem_str_same)
  ultimately show ?thesis by simp
qed

lemma common_choice_fields:
  assumes "(k, lab, Choice choices) \<in> set common_fields"
  shows "(k = ''compression'' \<and> choices = [''lz4'', ''zstd'', ''gzip-9'', ''off''])
       \<or> (k = ''raid_level'' \<and> choices = [''none'', ''mirror'', ''raidz1'', ''raidz2'', ''raidz3''])
       \<or> (k = ''bootloader'' \<and> choices = [''zbm'', ''systemd-boot'', ''refind''])
       \<or> (k = ''ashift'' \<and> choices = [''auto'', ''9'', ''12'', ''13''])"
  using assms unfolding common_fields_def set_simps insert_iff empty_iff prod.inject field_kind.inject
  by (elim disjE conjE) (simp_all only: field_kind.distinct simp_thms)

lemma choice_fields:
  assumes "(k, lab, Choice choices) \<in> set (ss_fields (SettingsScreen_init st0))"
  shows "distinct choices" and "choices \<noteq> []"
proof -
  from assms have "(k, lab, Choice choices) \<in> set common_fields"
    by (auto simp: SettingsScreen_init_def split: if_splits)
  from common_choice_fields [OF this] show "distinct choices" and "choices \<noteq> []"
    by auto
qed

lemma setitem_str_defined_key:
  assumes "k \<in> set str_keys"
  shows "\<exists>st'. setitem_str st k s = Some st'"
  using assms by (cases rule: str_key_cases) (simp_all add: setitem_str_def)

lemma choice_field_key:
  assumes "(k, lab, Choice choices) \<in> set (ss_fields (SettingsScreen_init st0))"
  shows "k \<in> set str_keys"
proof -
  from assms have "(k, lab, Choice choices) \<in> set common_fields"
    by (auto simp: SettingsScreen_init_def split: if_splits)
  from common_choice_fields [OF this] show ?thesis
    by (auto simp: str_keys_def)
qed

lemma edit_choice_out:
  assumes "choices \<noteq> []" and "k \<in> set str_keys"
    and "getitem (ss_state scr) k = Some cur" and "cur \<notin> PyStr ` set choices"
  shows "\<exists>st'. setitem_str (ss_state scr) k (choices ! 0) = Some st'
           \<and> edit_choice scr k choices = Inr (scr \<lparr> ss_state := st' \<rparr>)"
proof -
  from setitem_str_defined_key [OF assms(2)] obtain st' where
    "setitem_str (ss_state scr) k (choices ! 0) = Some st'"
    by blast
  then show ?thesis
    using cycle_choice_out [OF assms(1,3,4)]
    by (simp add: edit_choice_def store_def setitem_def)
qed

section \<open>Facts about the Install screen\<close>

lemma last_lines_short: "length xs \<le> n \<Longrightarrow> last_lines n xs = xs"
  by (simp add: last_lines_def)

lemma last_lines_append: "last_lines n (last_lines n xs @ ys) = last_lines n (xs @ ys)"
  by (cases "length xs \<le> n") (simp_all add: last_lines_def add.commute)

lemma length_last_lines: "length (last_lines n xs) \<le> n"
  by (simp add: last_lines_def)

lemma add_log_fields:
  "steps (add_log scr msg) = steps scr" "is_state (add_log scr msg) = is_state scr"
  "current_step (add_log scr msg) = current_step scr"
  "max_log_lines (add_log scr msg) = max_log_lines scr"
  by (simp_all add: add_log_def Let_def)

lemma add_log_lines:
  "length (log_lines scr) \<le> max_log_lines scr \<Longrightarrow>
     log_lines (add_log scr msg) = last_lines (max_log_lines scr) (log_lines scr @ [msg])"
proof (cases "length (log_lines scr) = max_log_lines scr")
  case True
  then show ?thesis
    by (cases "log_lines scr") (auto simp: add_log_def Let_def last_lines_def)
next
  case False
  moreover assume "length (log_lines scr) \<le> max_log_lines scr"
  ultimately show ?thesis
    by (simp add: add_log_def Let_def last_lines_def)
qed

lemma run_steps_trace:
  assumes "steps scr \<noteq> []"
  shows "\<exists>scr' fs. run_steps scr (List.enumerate n ss) = Inr (scr', fs)
      \<and> steps scr' = steps scr \<and> is_state scr' = is_state scr
      \<and> max_log_lines scr' = max_log_lines scr
      \<and> map fst fs = concat (map (\<lambda>i. [i, i]) [n..<n + length ss])
      \<and> (length (log_lines scr) \<le> max_log_lines scr \<longrightarrow>
           log_lines scr' = last_lines (max_log_lines scr) (log_lines scr @ full_log ss)
           \<and> map snd fs
               = map (\<lambda>k. last_lines (max_log_lines scr) (log_lines scr @ take (Suc k) (full_log ss)))
                   [0..<2 * length ss])"
  using assms
proof (induction ss arbitrary: scr n)
  case Nil
  then show ?case by (simp add: full_log_def last_lines_short)
next
  case (Cons s ss)
  define st co where "st = ''Starting: '' @ s" and "co = ''Completed: '' @ s"
  let ?m = "max_log_lines scr"
  let ?scr0 = "scr \<lparr> current_step := n \<rparr>"
  let ?scr1 = "add_log ?scr0 st"
  let ?scr2 = "add_log ?scr1 co"
  have k1: "steps ?scr1 = steps scr" "current_step ?scr1 = n"
    by (simp_all add: add_log_fields)
  have k2: "steps ?scr2 = steps scr" "current_step ?scr2 = n" "is_state ?scr2 = is_state scr"
    "max_log_lines ?scr2 = ?m"
    by (simp_all add: add_log_fields)
  from Cons.prems k2(1) have "steps ?scr2 \<noteq> []" by simp
  from Cons.IH [OF this, of "Suc n"] obtain scr' fs where
    r: "run_steps ?scr2 (List.enumerate (Suc n) ss) = Inr (scr', fs)"
    and p: "steps scr' = steps scr" "is_state scr' = is_state scr" "max_log_lines scr' = ?m"
    and c: "map fst fs = concat (map (\<lambda>i. [i, i]) [Suc n..<Suc n + length ss])"
    and l: "length (log_lines ?scr2) \<le> ?m \<longrightarrow>
           log_lines scr' = last_lines ?m (log_lines ?scr2 @ full_log ss)
           \<and> map snd fs
               = map (\<lambda>k. last_lines ?m (log_lines ?scr2 @ take (Suc k) (full_log ss)))
                   [0..<2 * length ss]"
    unfolding k2 by blast
  let ?fs = "(n, log_lines ?scr1) # (n, log_lines ?scr2) # fs"
  have run: "run_steps scr (List.enumerate n (s # ss)) = Inr (scr', ?fs)"
    using Cons.prems r k1 k2 unfolding st_def co_def by (simp add: update_display_def Let_def)
  have cnt: "map fst ?fs = concat (map (\<lambda>i. [i, i]) [n..<n + length (s # ss)])"
    using c by (simp add: upt_conv_Cons del: upt_Suc)
  have lg: "log_lines scr' = last_lines ?m (log_lines scr @ full_log (s # ss))
           \<and> map snd ?fs
               = map (\<lambda>k. last_lines ?m (log_lines scr @ take (Suc k) (full_log (s # ss))))
                   [0..<2 * length (s # ss)]"
    if h: "length (log_lines scr) \<le> ?m"
  proof -
    from h have l1: "log_lines ?scr1 = last_lines ?m (log_lines scr @ [st])"
      using add_log_lines [of ?scr0 st] by simp
    then have "length (log_lines ?scr1) \<le> max_log_lines ?scr1"
      by (simp add: length_last_lines add_log_fields)
    from add_log_lines [OF this, of co] l1
    have l2: "log_lines ?scr2 = last_lines ?m (log_lines scr @ [st, co])"
      by (simp add: add_log_fields last_lines_append)
    then have "length (log_lines ?scr2) \<le> ?m"
      by (simp add: length_last_lines)
    with l have i1: "log_lines scr' = last_lines ?m (log_lines ?scr2 @ full_log ss)"
      and i2: "map snd fs
               = map (\<lambda>k. last_lines ?m (log_lines ?scr2 @ take (Suc k) (full_log ss)))
                   [0..<2 * length ss]"
      by blast+
    have a: "last_lines ?m (log_lines ?scr2 @ ys) = last_lines ?m (log_lines scr @ st # co # ys)" for ys
      unfolding l2 using last_lines_append [of ?m "log_lines scr @ [st, co]" ys] by simp
    have f: "full_log (s # ss) = st # co # full_log ss"
      by (simp add: full_log_def st_def co_def)
    have "map (\<lambda>k. Suc (Suc k)) [0..<2 * length ss] = map Suc (map Suc [0..<2 * length ss])"
      by simp
    also have "\<dots> = [Suc (Suc 0)..<Suc (Suc (2 * length ss))]"
      unfolding map_Suc_upt ..
    finally have u: "[0..<2 * length (s # ss)] = 0 # 1 # map (\<lambda>k. Suc (Suc k)) [0..<2 * length ss]"
      by (simp add: upt_conv_Cons del: upt_Suc)
    from i1 have j1: "log_lines scr' = last_lines ?m (log_lines scr @ full_log (s # ss))"
      unfolding a f .
    from i2 have j2: "map snd fs
        = map (\<lambda>k. last_lines ?m (log_lines scr @ st # co # take (Suc k) (full_log ss)))
            [0..<2 * length ss]"
      unfolding a .
    have "map snd ?fs
        = map (\<lambda>k. last_lines ?m (log_lines scr @ take (Suc k) (full_log (s # ss))))
            [0..<2 * length (s # ss)]"
      unfolding f u by (simp add: j2 l1 l2 comp_def)
    with j1 show ?thesis ..
  qed
  from run p cnt lg show ?case by blast
qed

section \<open>The validation gate\<close>

text \<open>
  C1. The Validation screen returns \<open>valid\<close> only when every critical check of the
  results it has just computed passed; while a critical check fails, an Enter key is
  skipped and the screen keeps reading keys; and a pass of the main loop that starts at
  the Validation screen moves to the Confirmation screen only when every critical check
  of the results computed from the configuration and system facts at that entry passed.
  No pass of the main loop that starts at another screen moves to the Confirmation
  screen.
\<close>

theorem validation_gate:
  "(ValidationScreen_show vs evs = Returned (''valid'', vs') evs' \<longrightarrow>
      vs' = run_validations vs \<and> (\<forall>c \<in> set (checks vs'). critical c \<longrightarrow> passed c))
   \<and> (\<not> all_passed (run_validations vs) \<and> key_enter (wait_for_key ev) \<longrightarrow>
      ValidationScreen_show vs (ev # evs) = ValidationScreen_show vs evs)
   \<and> (current_screen a = ''validation'' \<and> run_iter a evs = Next a' evs'
        \<and> current_screen a' = ''confirm'' \<longrightarrow>
      (\<forall>c \<in> set (checks (validate (app_state a) (app_system_info a))).
          critical c \<longrightarrow> passed c))
   \<and> (run_iter a evs = Next a' evs' \<and> current_screen a' = ''confirm'' \<longrightarrow>
      current_screen a = ''validation'')"
proof (intro conjI impI)
  assume h: "ValidationScreen_show vs evs = Returned (''valid'', vs') evs'"
  show "vs' = run_validations vs" using show_result(1) [OF h] .
  then show "\<forall>c \<in> set (checks vs'). critical c \<longrightarrow> passed c"
    using show_result(2) [OF h] all_passed_run [of vs] by simp
next
  assume "\<not> all_passed (run_validations vs) \<and> key_enter (wait_for_key ev)"
  then show "ValidationScreen_show vs (ev # evs) = ValidationScreen_show vs evs"
    by (auto simp: ValidationScreen_show_def Let_def key_enter_def lower_def lower_char_def)
next
  assume h: "current_screen a = ''validation'' \<and> run_iter a evs = Next a' evs'
        \<and> current_screen a' = ''confirm''"
  let ?vs = "ValidationScreen_init (app_state a) (app_system_info a)"
  from h obtain r scr where r: "ValidationScreen_show ?vs evs = Returned (r, scr) evs'"
    and a': "a' = a \<lparr> app_state := vs_state scr,
                       current_screen := (if r = ''back'' then ''settings''
                                          else if r = ''valid'' then ''confirm''
                                          else ''validation'') \<rparr>"
    using run_iter_validation_next [of a evs a' evs'] by auto
  from a' h have "r = ''valid''"
    by (auto split: if_splits)
  with show_result(2) [OF r] have "all_passed (run_validations ?vs)" by simp
  then show "\<forall>c \<in> set (checks (validate (app_state a) (app_system_info a))).
          critical c \<longrightarrow> passed c"
    using all_passed_run [of ?vs] by (simp add: validate_def)
next
  assume "run_iter a evs = Next a' evs' \<and> current_screen a' = ''confirm''"
  then show "current_screen a = ''validation''"
    using run_iter_enters_confirm [of a evs a' evs'] by blast
qed

theorem validation_gate_witness:
  "ValidationScreen_show
      (ValidationScreen_init (initial_state \<lparr> drives := [''sda''] \<rparr>) sample_facts)
      [press [CHR 0x0D]]
     = Returned (''valid'', validate (initial_state \<lparr> drives := [''sda''] \<rparr>) sample_facts) []
   \<and> list_all passed
        (filter critical (checks (validate (initial_state \<lparr> drives := [''sda''] \<rparr>) sample_facts)))
   \<and> \<not> all_passed (run_validations (ValidationScreen_init initial_state sample_facts))
   \<and> key_enter (wait_for_key (press [CHR 0x0D]))
   \<and> ValidationScreen_show (ValidationScreen_init initial_state sample_facts)
        [press [CHR 0x0D], press ''escape'']
       = ValidationScreen_show (ValidationScreen_init initial_state sample_facts)
           [press ''escape'']
   \<and> run_iter (at_screen ''validation'' (initial_state \<lparr> drives := [''sda''] \<rparr>) sample_facts)
        [press [CHR 0x0D]]
       = Next (at_screen ''confirm'' (initial_state \<lparr> drives := [''sda''] \<rparr>) sample_facts) []
   \<and> current_screen
        (at_screen ''validation'' (initial_state \<lparr> drives := [''sda''] \<rparr>) sample_facts)
       = ''validation''"
proof -
  let ?st = "initial_state \<lparr> drives := [''sda''] \<rparr>"
  let ?vs = "ValidationScreen_init ?st sample_facts"
  let ?vsi = "ValidationScreen_init initial_state sample_facts"
  let ?a = "at_screen ''validation'' ?st sample_facts"
  let ?a' = "at_screen ''confirm'' ?st sample_facts"
  have 1: "ValidationScreen_show ?vs [press [CHR 0x0D]] = Returned (''valid'', validate ?st sample_facts) []"
    by code_simp
  have 2: "\<not> all_passed (run_validations ?vsi)" by code_simp
  have 3: "key_enter (wait_for_key (press [CHR 0x0D]))" by code_simp
  have 4: "current_screen ?a = ''validation''" "current_screen ?a' = ''confirm''"
    "app_state ?a = ?st" "app_system_info ?a = sample_facts"
    by (simp_all add: at_screen_def)
  have 5: "run_iter ?a [press [CHR 0x0D]] = Next ?a' []" by code_simp
  note g1 = validation_gate [of ?vs "[press [CHR 0x0D]]" "validate ?st sample_facts" "[]"
      "press [CHR 0x0D]" ?a ?a']
  note g2 = validation_gate [of ?vsi "[press ''escape'']" "validate ?st sample_facts" "[]"
      "press [CHR 0x0D]" ?a ?a']
  from g1 1 have "\<forall>c \<in> set (checks (validate ?st sample_facts)). critical c \<longrightarrow> passed c"
    by blast
  then have 6: "list_all passed (filter critical (checks (validate ?st sample_facts)))"
    by (simp add: list_all_iff)
  from g2 2 3 have 7: "ValidationScreen_show ?vsi [press [CHR 0x0D], press ''escape'']
       = ValidationScreen_show ?vsi [press ''escape'']"
    by blast
  from g1 4 5 have "\<forall>c \<in> set (checks (validate ?st sample_facts)). critical c \<longrightarrow> passed c"
    by simp
  moreover from g1 4(2) 5 have "current_screen ?a = ''validation''"
    by blast
  ultimately show ?thesis using 1 2 3 5 6 7 by simp
qed

section \<open>The Pool Name check\<close>

text \<open>
  C2. The Pool Name check is to pass exactly on the names that are not empty and made of
  characters of the class \<open>[A-Za-z0-9_-]\<close> only. The test of the code,
  \<open>len(pool_name) > 0 and pool_name.replace('_', '').replace('-', '').isalnum()\<close>,
  misses this on both sides. The name made of a single underscore is not empty and lies
  within the class, and the check fails on it with the message \<open>Invalid pool name\<close>,
  which closes the validation gate of a configuration that passes every other critical
  check: \<open>isalnum\<close> is false on the empty string that is left once underscores and
  hyphens are removed. The name made of the single letter U+00E9 lies outside the class,
  and the check passes on it: \<open>isalnum\<close> accepts letters beyond ASCII.
\<close>

theorem pool_name_check_failing_input:
  "pool_name (initial_state \<lparr> drives := [''sda''], pool_name := ''_'' \<rparr>) \<noteq> []
   \<and> list_all pool_char (pool_name (initial_state \<lparr> drives := [''sda''], pool_name := ''_'' \<rparr>))
   \<and> checks (validate (initial_state \<lparr> drives := [''sda''], pool_name := ''_'' \<rparr>) sample_facts) ! 4
       = \<lparr> name = ''Pool Name'', passed = False, message = ''Invalid pool name'',
           critical = True \<rparr>
   \<and> \<not> all_passed (validate (initial_state \<lparr> drives := [''sda''], pool_name := ''_'' \<rparr>) sample_facts)
   \<and> all_passed (validate (initial_state \<lparr> drives := [''sda''] \<rparr>) sample_facts)
   \<and> \<not> list_all pool_char
         (pool_name (initial_state \<lparr> drives := [''sda''], pool_name := [CHR 0xE9] \<rparr>))
   \<and> passed (checks (validate (initial_state \<lparr> drives := [''sda''], pool_name := [CHR 0xE9] \<rparr>)
                         sample_facts) ! 4)"
  by code_simp

section \<open>The RAID Configuration check\<close>

text \<open>
  C3. The fourth check is the RAID Configuration check. For the levels mirror, raidz1,
  raidz2 and raidz3, with minimums 2, 3, 4 and 5: with fewer drives than the minimum the
  check fails, not all critical checks passed, and the message names that minimum; with
  at least the minimum number of drives the check passes. With level none the check
  passes whatever the number of drives.
\<close>

theorem raid_configuration_check:
  "(\<forall>(level, minimum, msg) \<in> set raid_table.
      raid_level st = level \<longrightarrow>
        (let c = checks (validate st si) ! 3 in
           name c = ''RAID Configuration''
           \<and> (length (drives st) < minimum \<longrightarrow>
                \<not> passed c \<and> \<not> all_passed (validate st si) \<and> message c = msg)
           \<and> (minimum \<le> length (drives st) \<longrightarrow> passed c)))
   \<and> (raid_level st = ''none'' \<longrightarrow> passed (checks (validate st si) ! 3))"
proof -
  have c: "checks (validate st si) ! 3 = raid_check st"
    by (simp add: checks_validate)
  have "passed (raid_check st)" if "raid_level st = ''none''"
    using that raid_check_other [of st] by simp
  moreover have "name (raid_check st) = ''RAID Configuration''
           \<and> (length (drives st) < minimum \<longrightarrow>
                \<not> passed (raid_check st) \<and> \<not> all_passed (validate st si)
                \<and> message (raid_check st) = msg)
           \<and> (minimum \<le> length (drives st) \<longrightarrow> passed (raid_check st))"
    if "(level, minimum, msg) \<in> set raid_table" and "raid_level st = level"
    for level minimum msg
    using raid_check_table [OF that] by (simp add: raid_check_fields all_passed_validate)
  ultimately show ?thesis
    unfolding c Let_def by blast
qed

theorem raid_configuration_check_witness:
  "(let st = initial_state \<lparr> drives := [''sda''], raid_level := ''mirror'' \<rparr>;
        c = checks (validate st sample_facts) ! 3
    in (''mirror'', 2, ''Mirror requires 2+ drives'') = raid_table ! 0
       \<and> raid_level st = ''mirror'' \<and> length (drives st) < 2
       \<and> \<not> passed c \<and> \<not> all_passed (validate st sample_facts)
       \<and> message c = ''Mirror requires 2+ drives'')
   \<and> (let st = initial_state \<lparr> drives := [''sda'', ''sdb''], raid_level := ''mirror'' \<rparr>
      in 2 \<le> length (drives st) \<and> passed (checks (validate st sample_facts) ! 3))
   \<and> raid_level initial_state = ''none''
   \<and> passed (checks (validate initial_state sample_facts) ! 3)"
  using raid_configuration_check
          [of "initial_state \<lparr> drives := [''sda''], raid_level := ''mirror'' \<rparr>" sample_facts]
        raid_configuration_check
          [of "initial_state \<lparr> drives := [''sda'', ''sdb''], raid_level := ''mirror'' \<rparr>"
              sample_facts]
        raid_configuration_check [of initial_state sample_facts]
  by (simp add: raid_table_def initial_state_def Let_def)

section \<open>The initial configuration\<close>

text \<open>
  C4. The configuration built by \<open>ZBMNotcursesTUI.__init__\<close> has pool name \<open>zroot\<close>, RAID
  level \<open>none\<close>, bootloader \<open>zbm\<close>, compression \<open>zstd\<close>, EFI size \<open>1G\<close>, swap size \<open>8G\<close>,
  copying of /home switched on, no drives and no mode. Its ashift, however, is the empty
  string: it is not \<open>auto\<close>, it is none of the options of the Ashift field, and the first
  edit of that field replaces it by \<open>auto\<close>.
\<close>

theorem initial_state_defaults:
  "app_state ZBMNotcursesTUI_init = initial_state
   \<and> pool_name initial_state = ''zroot''
   \<and> raid_level initial_state = ''none''
   \<and> bootloader initial_state = ''zbm''
   \<and> compression initial_state = ''zstd''
   \<and> efi_size initial_state = ''1G''
   \<and> swap_size initial_state = ''8G''
   \<and> copy_home initial_state
   \<and> drives initial_state = []
   \<and> mode initial_state = None
   \<and> ashift initial_state = []
   \<and> ashift initial_state \<noteq> ''auto''
   \<and> index [''auto'', ''9'', ''12'', ''13''] (ashift initial_state) = None
   \<and> cycle_choice initial_state ''ashift'' [''auto'', ''9'', ''12'', ''13''] = Inr ''auto''"
  by (simp add: ZBMNotcursesTUI_init_def initial_state_def cycle_choice_def getitem_def)

section \<open>The fields of the Settings screen\<close>




section \<open>Going back from the Validation screen\<close>

text \<open>
  C6. Running the checks leaves the configuration held by the Validation screen as it
  was; whatever the screen returns, its configuration is the one it was given; and a
  pass of the main loop that starts at the Validation screen and goes on, in particular
  back to the Settings screen, leaves every field of the configuration unchanged.
\<close>

theorem back_navigation_frame:
  "vs_state (run_validations vs) = vs_state vs
   \<and> (ValidationScreen_show vs evs = Returned (r, vs') evs' \<longrightarrow> vs_state vs' = vs_state vs)
   \<and> (current_screen a = ''validation'' \<and> run_iter a evs = Next a' evs' \<longrightarrow>
        app_state a' = app_state a
        \<and> (current_screen a' = ''settings'' \<longleftrightarrow>
             (\<exists>scr. ValidationScreen_show
                       (ValidationScreen_init (app_state a) (app_system_info a)) evs
                     = Returned (''back'', scr) evs')))"
proof (intro conjI impI)
  show "vs_state (run_validations vs) = vs_state vs" by (rule vs_state_run)
next
  assume "ValidationScreen_show vs evs = Returned (r, vs') evs'"
  from show_result(1) [OF this] show "vs_state vs' = vs_state vs"
    by (simp add: vs_state_run)
next
  assume h: "current_screen a = ''validation'' \<and> run_iter a evs = Next a' evs'"
  let ?vs = "ValidationScreen_init (app_state a) (app_system_info a)"
  from h obtain r scr where r: "ValidationScreen_show ?vs evs = Returned (r, scr) evs'"
    and a': "a' = a \<lparr> app_state := vs_state scr,
                       current_screen := (if r = ''back'' then ''settings''
                                          else if r = ''valid'' then ''confirm''
                                          else ''validation'') \<rparr>"
    using run_iter_validation_next [of a evs a' evs'] by auto
  from show_result(1) [OF r] have "vs_state scr = app_state a"
    by (simp add: vs_state_run ValidationScreen_init_def)
  with a' show "app_state a' = app_state a" by simp
  from a' r show "current_screen a' = ''settings'' \<longleftrightarrow>
             (\<exists>scr. ValidationScreen_show ?vs evs = Returned (''back'', scr) evs')"
    by (auto split: if_splits)
qed

theorem back_navigation_frame_witness:
  "ValidationScreen_show (ValidationScreen_init initial_state sample_facts) [press ''escape'']
     = Returned (''back'', validate initial_state sample_facts) []
   \<and> vs_state (validate initial_state sample_facts) = initial_state
   \<and> current_screen (at_screen ''validation'' initial_state sample_facts) = ''validation''
   \<and> run_iter (at_screen ''validation'' initial_state sample_facts) [press ''escape'']
       = Next (at_screen ''settings'' initial_state sample_facts) []
   \<and> app_state (at_screen ''settings'' initial_state sample_facts) = initial_state"
proof -
  let ?vs = "ValidationScreen_init initial_state sample_facts"
  let ?a = "at_screen ''validation'' initial_state sample_facts"
  let ?b = "at_screen ''settings'' initial_state sample_facts"
  have 1: "ValidationScreen_show ?vs [press ''escape'']
     = Returned (''back'', validate initial_state sample_facts) []"
    by code_simp
  have 2: "run_iter ?a [press ''escape''] = Next ?b []" by code_simp
  have 3: "current_screen ?a = ''validation''" "app_state ?a = initial_state"
    by (simp_all add: at_screen_def)
  note f = back_navigation_frame [of ?vs "[press ''escape'']" "''back''"
      "validate initial_state sample_facts" "[]" ?a ?b]
  from f 1 have 4: "vs_state (validate initial_state sample_facts) = initial_state"
    by (simp add: ValidationScreen_init_def)
  from f 2 3 have 5: "app_state ?b = initial_state" by simp
  from 1 2 3 4 5 show ?thesis by simp
qed

section \<open>The Hostname check\<close>

text \<open>
  C7. The results hold a check named Hostname exactly when the mode is \<open>existing\<close>;
  such a check is not critical and passes exactly when the hostname is not empty; and
  whether all critical checks passed does not depend on the hostname, so that an empty
  hostname never blocks progress.
\<close>

theorem hostname_check_presence:
  "((\<exists>c \<in> set (checks (validate st si)). name c = ''Hostname'') \<longleftrightarrow> mode st = Some ''existing'')
   \<and> (\<forall>c \<in> set (checks (validate st si)).
         name c = ''Hostname'' \<longrightarrow> \<not> critical c \<and> (passed c \<longleftrightarrow> hostname st \<noteq> []))
   \<and> all_passed (validate (st \<lparr> hostname := h \<rparr>) si) = all_passed (validate st si)"
  by (auto simp: checks_validate all_passed_validate efi_check_def ram_check_def
      drive_check_def raid_check_def pool_check_def hostname_check_def Let_def split: prod.splits)

theorem hostname_check_presence_witness:
  "(let st = initial_state \<lparr> mode := Some ''existing'', drives := [''sda''] \<rparr>;
        c = checks (validate st sample_facts) ! 5
    in mode st = Some ''existing'' \<and> hostname st = [] \<and> name c = ''Hostname''
       \<and> \<not> critical c \<and> \<not> passed c \<and> all_passed (validate st sample_facts))
   \<and> (let st = initial_state \<lparr> mode := Some ''new'', drives := [''sda''] \<rparr>
      in hostname st = []
         \<and> ''Hostname'' \<notin> set (map name (checks (validate st sample_facts)))
         \<and> all_passed (validate st sample_facts))"
proof -
  let ?e = "initial_state \<lparr> mode := Some ''existing'', drives := [''sda''] \<rparr>"
  let ?n = "initial_state \<lparr> mode := Some ''new'', drives := [''sda''] \<rparr>"
  let ?c = "checks (validate ?e sample_facts) ! 5"
  have 1: "mode ?e = Some ''existing''" "hostname ?e = []" "hostname ?n = []"
    "mode ?n \<noteq> Some ''existing''"
    by (simp_all add: initial_state_def)
  have 2: "?c \<in> set (checks (validate ?e sample_facts))" "name ?c = ''Hostname''"
    by (simp_all add: checks_validate 1 hostname_check_def)
  have 3: "all_passed (validate ?e sample_facts)" "all_passed (validate ?n sample_facts)"
    by code_simp+
  from hostname_check_presence [of ?e sample_facts] 1 2
  have 4: "\<not> critical ?c" "\<not> passed ?c" by blast+
  from hostname_check_presence [of ?n sample_facts] 1
  have "\<not> (\<exists>c \<in> set (checks (validate ?n sample_facts)). name c = ''Hostname'')" by blast
  then have 5: "''Hostname'' \<notin> set (map name (checks (validate ?n sample_facts)))"
    by auto
  from 1 2 3 4 5 show ?thesis by (simp add: Let_def)
qed

section \<open>Cyclic-choice fields\<close>

text \<open>
  C8. For every choice field of the Settings screen, in either mode, with its list of N
  options, which has no repeated option and is not empty: when the current value of the
  field occurs in the list, editing the field N times returns the screen, and with it the
  field, to where it started. Each edit stores under the key of the field the option that
  follows the current one, which is the option at position i + 1 for a current value at
  position i, wrapping at the end, and changes nothing else of the screen; so n edits
  in a row store the option at position i + n modulo N. When the current value does not
  occur in the list, one cycle yields the option at index 0, and the edit stores it.
\<close>

theorem cycle_choice_wraps:
  assumes "(k, lab, Choice choices) \<in> set (ss_fields (SettingsScreen_init st0))"
  shows "(getitem (ss_state scr) k = Some (PyStr v) \<and> v \<in> set choices \<longrightarrow>
            cycle_times (length choices) scr k choices = Inr scr)
       \<and> (i < length choices \<and> getitem (ss_state scr) k = Some (PyStr (choices ! i)) \<longrightarrow>
            cycle_choice (ss_state scr) k choices = Inr (choices ! ((i + 1) mod length choices))
            \<and> (\<exists>st'. edit_choice scr k choices = Inr (scr \<lparr> ss_state := st' \<rparr>)
                  \<and> setitem (ss_state scr) k (PyStr (choices ! ((i + 1) mod length choices)))
                      = Some st'
                  \<and> getitem st' k = Some (PyStr (choices ! ((i + 1) mod length choices))))
            \<and> (\<exists>st'. cycle_times n scr k choices = Inr (scr \<lparr> ss_state := st' \<rparr>)
                  \<and> setitem (ss_state scr) k (PyStr (choices ! ((i + n) mod length choices)))
                      = Some st'
                  \<and> getitem st' k = Some (PyStr (choices ! ((i + n) mod length choices)))))
       \<and> (getitem (ss_state scr) k = Some cur \<and> cur \<notin> PyStr ` set choices \<longrightarrow>
            cycle_choice (ss_state scr) k choices = Inr (choices ! 0)
            \<and> (\<exists>st'. edit_choice scr k choices = Inr (scr \<lparr> ss_state := st' \<rparr>)
                  \<and> setitem (ss_state scr) k (PyStr (choices ! 0)) = Some st'
                  \<and> getitem st' k = Some (PyStr (choices ! 0))))
       \<and> distinct choices \<and> choices \<noteq> []"
proof -
  note d = choice_fields [OF assms]
  note sk = choice_field_key [OF assms]
  have s: "setitem st k (PyStr x) = setitem_str st k x" for st x
    by (simp add: setitem_def)
  have 1: "cycle_times (length choices) scr k choices = Inr scr"
    if "getitem (ss_state scr) k = Some (PyStr v) \<and> v \<in> set choices"
    using that cycle_times_wraps [OF d(1), of v scr k] by blast
  have 2: "cycle_choice (ss_state scr) k choices = Inr (choices ! ((i + 1) mod length choices))
            \<and> (\<exists>st'. edit_choice scr k choices = Inr (scr \<lparr> ss_state := st' \<rparr>)
                  \<and> setitem (ss_state scr) k (PyStr (choices ! ((i + 1) mod length choices)))
                      = Some st'
                  \<and> getitem st' k = Some (PyStr (choices ! ((i + 1) mod length choices))))
            \<and> (\<exists>st'. cycle_times n scr k choices = Inr (scr \<lparr> ss_state := st' \<rparr>)
                  \<and> setitem (ss_state scr) k (PyStr (choices ! ((i + n) mod length choices)))
                      = Some st'
                  \<and> getitem st' k = Some (PyStr (choices ! ((i + n) mod length choices))))"
    if h: "i < length choices \<and> getitem (ss_state scr) k = Some (PyStr (choices ! i))"
  proof -
    from h have h1: "i < length choices" and h2: "getitem (ss_state scr) k = Some (PyStr (choices ! i))"
      by blast+
    from edit_choice_in [OF d(1) h1 h2] obtain st1 where
      e: "setitem_str (ss_state scr) k (choices ! ((i + 1) mod length choices)) = Some st1"
         "edit_choice scr k choices = Inr (scr \<lparr> ss_state := st1 \<rparr>)"
      by blast
    from cycle_times_shift [OF d(1) h1 h2, of n] obtain stn where
      c: "setitem_str (ss_state scr) k (choices ! ((i + n) mod length choices)) = Some stn"
         "cycle_times n scr k choices = Inr (scr \<lparr> ss_state := stn \<rparr>)"
      by blast
    from e c getitem_setitem_str [OF e(1)] getitem_setitem_str [OF c(1)]
      cycle_choice_in [OF d(1) h1 h2]
    show ?thesis unfolding s by blast
  qed
  have 3: "cycle_choice (ss_state scr) k choices = Inr (choices ! 0)
            \<and> (\<exists>st'. edit_choice scr k choices = Inr (scr \<lparr> ss_state := st' \<rparr>)
                  \<and> setitem (ss_state scr) k (PyStr (choices ! 0)) = Some st'
                  \<and> getitem st' k = Some (PyStr (choices ! 0)))"
    if h: "getitem (ss_state scr) k = Some cur \<and> cur \<notin> PyStr ` set choices"
  proof -
    from h have h1: "getitem (ss_state scr) k = Some cur" and h2: "cur \<notin> PyStr ` set choices"
      by blast+
    from edit_choice_out [OF d(2) sk h1 h2] obtain st1 where
      e: "setitem_str (ss_state scr) k (choices ! 0) = Some st1"
         "edit_choice scr k choices = Inr (scr \<lparr> ss_state := st1 \<rparr>)"
      by blast
    from e getitem_setitem_str [OF e(1)] cycle_choice_out [OF d(2) h1 h2]
    show ?thesis unfolding s by blast
  qed
  from 1 2 3 d show ?thesis by blast
qed

theorem cycle_choice_wraps_witness:
  "(''compression'', ''Compression'', Choice [''lz4'', ''zstd'', ''gzip-9'', ''off''])
      = ss_fields (SettingsScreen_init initial_state) ! 2
   \<and> getitem initial_state ''compression'' = Some (PyStr ''zstd'')
   \<and> cycle_times 4 (SettingsScreen_init initial_state) ''compression''
        [''lz4'', ''zstd'', ''gzip-9'', ''off''] = Inr (SettingsScreen_init initial_state)
   \<and> cycle_choice initial_state ''compression'' [''lz4'', ''zstd'', ''gzip-9'', ''off'']
        = Inr ''gzip-9''
   \<and> edit_choice (SettingsScreen_init initial_state) ''compression''
        [''lz4'', ''zstd'', ''gzip-9'', ''off'']
        = Inr ((SettingsScreen_init initial_state)
                 \<lparr> ss_state := initial_state \<lparr> compression := ''gzip-9'' \<rparr> \<rparr>)
   \<and> cycle_times 3 (SettingsScreen_init initial_state) ''compression''
        [''lz4'', ''zstd'', ''gzip-9'', ''off'']
        = Inr ((SettingsScreen_init initial_state)
                 \<lparr> ss_state := initial_state \<lparr> compression := ''lz4'' \<rparr> \<rparr>)
   \<and> (''ashift'', ''Ashift'', Choice [''auto'', ''9'', ''12'', ''13''])
      = ss_fields (SettingsScreen_init initial_state) ! 5
   \<and> getitem initial_state ''ashift'' = Some (PyStr [])
   \<and> cycle_choice initial_state ''ashift'' [''auto'', ''9'', ''12'', ''13''] = Inr ''auto''
   \<and> edit_choice (SettingsScreen_init initial_state) ''ashift'' [''auto'', ''9'', ''12'', ''13'']
        = Inr ((SettingsScreen_init initial_state)
                 \<lparr> ss_state := initial_state \<lparr> ashift := ''auto'' \<rparr> \<rparr>)"
proof -
  let ?scr = "SettingsScreen_init initial_state"
  let ?cs = "[''lz4'', ''zstd'', ''gzip-9'', ''off'']"
  let ?as = "[''auto'', ''9'', ''12'', ''13'']"
  have f: "(''compression'', ''Compression'', Choice ?cs) = ss_fields ?scr ! 2"
    "(''ashift'', ''Ashift'', Choice ?as) = ss_fields ?scr ! 5"
    by code_simp+
  have m: "(''compression'', ''Compression'', Choice ?cs) \<in> set (ss_fields ?scr)"
    "(''ashift'', ''Ashift'', Choice ?as) \<in> set (ss_fields ?scr)"
    by code_simp+
  have s: "ss_state ?scr = initial_state"
    by (simp add: SettingsScreen_init_def)
  have g: "getitem (ss_state ?scr) ''compression'' = Some (PyStr ''zstd'')"
    "getitem (ss_state ?scr) ''compression'' = Some (PyStr (?cs ! 1))"
    "getitem (ss_state ?scr) ''ashift'' = Some (PyStr [])"
    by code_simp+
  have n: "''zstd'' \<in> set ?cs" "PyStr [] \<notin> PyStr ` set ?as" "(1::nat) < length ?cs"
    by simp_all
  have l: "length ?cs = 4" "?cs ! ((1 + 1) mod 4) = ''gzip-9''" "?cs ! ((1 + 3) mod 4) = ''lz4''"
    "?as ! 0 = ''auto''"
    by simp_all
  have u: "setitem initial_state ''compression'' (PyStr x)
      = Some (initial_state \<lparr> compression := x \<rparr>)"
    "setitem initial_state ''ashift'' (PyStr x) = Some (initial_state \<lparr> ashift := x \<rparr>)" for x
    by (simp_all add: setitem_def setitem_str_def)
  note c = cycle_choice_wraps [OF m(1), of ?scr "''zstd''" 1 3 "PyStr []"]
  note a = cycle_choice_wraps [OF m(2), of ?scr "''zstd''" 1 3 "PyStr []"]
  from c g n have "cycle_times (length ?cs) ?scr ''compression'' ?cs = Inr ?scr" by blast
  then have 1: "cycle_times 4 ?scr ''compression'' ?cs = Inr ?scr"
    by (simp only: l(1))
  from c g n have "cycle_choice (ss_state ?scr) ''compression'' ?cs
      = Inr (?cs ! ((1 + 1) mod length ?cs))" by blast
  then have 2: "cycle_choice initial_state ''compression'' ?cs = Inr ''gzip-9''"
    by (simp add: s)
  from c g n obtain st1 where "edit_choice ?scr ''compression'' ?cs = Inr (?scr \<lparr> ss_state := st1 \<rparr>)"
    "setitem (ss_state ?scr) ''compression'' (PyStr (?cs ! ((1 + 1) mod length ?cs))) = Some st1"
    by blast
  then have 3: "edit_choice ?scr ''compression'' ?cs
      = Inr (?scr \<lparr> ss_state := initial_state \<lparr> compression := ''gzip-9'' \<rparr> \<rparr>)"
    unfolding s l u by simp
  from c g n obtain st3 where "cycle_times 3 ?scr ''compression'' ?cs = Inr (?scr \<lparr> ss_state := st3 \<rparr>)"
    "setitem (ss_state ?scr) ''compression'' (PyStr (?cs ! ((1 + 3) mod length ?cs))) = Some st3"
    by blast
  then have 4: "cycle_times 3 ?scr ''compression'' ?cs
      = Inr (?scr \<lparr> ss_state := initial_state \<lparr> compression := ''lz4'' \<rparr> \<rparr>)"
    unfolding s l u by simp
  from a g n have "cycle_choice (ss_state ?scr) ''ashift'' ?as = Inr (?as ! 0)" by blast
  then have 5: "cycle_choice initial_state ''ashift'' ?as = Inr ''auto''"
    by (simp add: s)
  from a g n obtain st0 where "edit_choice ?scr ''ashift'' ?as = Inr (?scr \<lparr> ss_state := st0 \<rparr>)"
    "setitem (ss_state ?scr) ''ashift'' (PyStr (?as ! 0)) = Some st0"
    by blast
  then have 6: "edit_choice ?scr ''ashift'' ?as
      = Inr (?scr \<lparr> ss_state := initial_state \<lparr> ashift := ''auto'' \<rparr> \<rparr>)"
    unfolding s l u by simp
  from g(1,3) have 7: "getitem initial_state ''compression'' = Some (PyStr ''zstd'')"
    "getitem initial_state ''ashift'' = Some (PyStr [])"
    by (simp_all only: s)
  show ?thesis
    by (intro conjI) (fact f 1 2 3 4 5 6 7)+
qed

section \<open>The steps of the Install screen\<close>

text \<open>
  C9. The step list set up by \<open>init_steps\<close> has nine names in mode \<open>existing\<close> and
  seven otherwise (so in mode \<open>new\<close>); in both cases the first is
  \<open>Checking device fitness\<close>, the last is \<open>Finalizing installation\<close>, and no name
  occurs twice.
\<close>

theorem install_step_list:
  "length (steps (init_steps scr)) = (if mode (is_state scr) = Some ''existing'' then 9 else 7)
   \<and> hd (steps (init_steps scr)) = ''Checking device fitness''
   \<and> last (steps (init_steps scr)) = ''Finalizing installation''
   \<and> distinct (steps (init_steps scr))"
  by (simp add: init_steps_def)

section \<open>The outcome of the Install screen\<close>

text \<open>
  C10. For every configuration the Install screen returns \<open>success\<close>, and it does so
  after running through every step of its list: it leaves the configuration and the step
  list as they are, it draws two frames for each step, in the order of the list and with
  the index of the step as the current step, and then one more frame with the number of
  steps as the current step. When the log holds no more than its maximum of lines at the
  start, the frame after each of the Starting and Completed messages, taken in the order
  of the steps, shows the last lines of the log up to that message, and the log at the
  end holds the last lines of the whole run. So a pass of the main loop that starts at
  the Install screen always goes on to the Completion screen, never back to the Settings
  screen.
\<close>

theorem install_always_succeeds:
  "(\<exists>scr' frames. InstallationScreen_show scr = Inr (''success'', scr', frames)
       \<and> steps scr' = steps (init_steps scr)
       \<and> current_step scr' = length (steps scr')
       \<and> is_state scr' = is_state scr
       \<and> map fst frames
           = concat (map (\<lambda>i. [i, i]) [0..<length (steps scr')]) @ [length (steps scr')]
       \<and> (length (log_lines scr) \<le> max_log_lines scr \<longrightarrow>
            log_lines scr'
              = last_lines (max_log_lines scr) (log_lines scr @ full_log (steps scr'))
            \<and> map snd frames
                = map (\<lambda>k. last_lines (max_log_lines scr)
                             (log_lines scr @ take (Suc k) (full_log (steps scr'))))
                    [0..<2 * length (steps scr')]
                  @ [log_lines scr']))
   \<and> (current_screen a = ''install'' \<longrightarrow>
        run_iter a evs = Next (a \<lparr> current_screen := ''complete'' \<rparr>) evs)"
proof -
  have show_ok: "\<exists>scr' frames. InstallationScreen_show scr = Inr (''success'', scr', frames)
       \<and> steps scr' = steps (init_steps scr)
       \<and> current_step scr' = length (steps scr')
       \<and> is_state scr' = is_state scr
       \<and> map fst frames
           = concat (map (\<lambda>i. [i, i]) [0..<length (steps scr')]) @ [length (steps scr')]
       \<and> (length (log_lines scr) \<le> max_log_lines scr \<longrightarrow>
            log_lines scr'
              = last_lines (max_log_lines scr) (log_lines scr @ full_log (steps scr'))
            \<and> map snd frames
                = map (\<lambda>k. last_lines (max_log_lines scr)
                             (log_lines scr @ take (Suc k) (full_log (steps scr'))))
                    [0..<2 * length (steps scr')]
                  @ [log_lines scr'])" for scr
  proof -
    let ?scr1 = "init_steps scr"
    have i: "steps ?scr1 \<noteq> []" "is_state ?scr1 = is_state scr"
      "log_lines ?scr1 = log_lines scr" "max_log_lines ?scr1 = max_log_lines scr"
      by (simp_all add: init_steps_def)
    from run_steps_trace [OF i(1), of 0 "steps ?scr1"] obtain scr2 fs where
      r: "run_steps ?scr1 (List.enumerate 0 (steps ?scr1)) = Inr (scr2, fs)"
      and p: "steps scr2 = steps ?scr1" "is_state scr2 = is_state scr"
      and c: "map fst fs = concat (map (\<lambda>i. [i, i]) [0..<length (steps ?scr1)])"
      and l: "length (log_lines scr) \<le> max_log_lines scr \<longrightarrow>
           log_lines scr2 = last_lines (max_log_lines scr) (log_lines scr @ full_log (steps ?scr1))
           \<and> map snd fs
               = map (\<lambda>k. last_lines (max_log_lines scr)
                            (log_lines scr @ take (Suc k) (full_log (steps ?scr1))))
                   [0..<2 * length (steps ?scr1)]"
      unfolding i by auto
    let ?scr3 = "scr2 \<lparr> current_step := length (steps scr2) \<rparr>"
    have "InstallationScreen_show scr
        = Inr (''success'', ?scr3, fs @ [(length (steps scr2), log_lines scr2)])"
      using r p(1) i(1) by (simp add: InstallationScreen_show_def Let_def update_display_def)
    with p c l show ?thesis by simp
  qed
  moreover have "run_iter a evs = Next (a \<lparr> current_screen := ''complete'' \<rparr>) evs"
    if "current_screen a = ''install''"
  proof -
    from show_ok [of "InstallationScreen_init (app_state a)"] obtain scr' frames where
      "InstallationScreen_show (InstallationScreen_init (app_state a)) = Inr (''success'', scr', frames)"
      "is_state scr' = app_state a"
      by (auto simp: InstallationScreen_init_def)
    with that show ?thesis by (simp add: run_iter_def)
  qed
  ultimately show ?thesis by blast
qed

theorem install_always_succeeds_witness:
  "current_screen (at_screen ''install'' initial_state sample_facts) = ''install''
   \<and> length (log_lines (InstallationScreen_init initial_state))
       \<le> max_log_lines (InstallationScreen_init initial_state)
   \<and> run_iter (at_screen ''install'' initial_state sample_facts) [press ''q'']
      = Next (at_screen ''complete'' initial_state sample_facts) [press ''q'']
   \<and> (\<exists>scr' frames.
         InstallationScreen_show (InstallationScreen_init initial_state)
           = Inr (''success'', scr', frames)
         \<and> current_step scr' = 7
         \<and> map fst frames = [0, 0, 1, 1, 2, 2, 3, 3, 4, 4, 5, 5, 6, 6, 7]
         \<and> log_lines scr'
             = [''Starting: Creating partitions'', ''Completed: Creating partitions'',
                ''Starting: Setting up ZFS pool'', ''Completed: Setting up ZFS pool'',
                ''Starting: Installing base system'', ''Completed: Installing base system'',
                ''Starting: Installing bootloader'', ''Completed: Installing bootloader'',
                ''Starting: Finalizing installation'', ''Completed: Finalizing installation'']
         \<and> length frames = 15
         \<and> snd (frames ! 0) = [''Starting: Checking device fitness'']
         \<and> snd (frames ! 1)
             = [''Starting: Checking device fitness'', ''Completed: Checking device fitness''])"
proof -
  let ?scr = "InstallationScreen_init initial_state"
  let ?a = "at_screen ''install'' initial_state sample_facts"
  let ?ss = "[''Checking device fitness'', ''Preparing target drives'', ''Creating partitions'',
      ''Setting up ZFS pool'', ''Installing base system'', ''Installing bootloader'',
      ''Finalizing installation'']"
  note t = install_always_succeeds [of ?scr ?a "[press ''q'']"]
  have h: "current_screen ?a = ''install''"
    "length (log_lines ?scr) \<le> max_log_lines ?scr"
    by (simp_all add: at_screen_def InstallationScreen_init_def)
  have s: "steps (init_steps ?scr) = ?ss" "log_lines ?scr = []" "max_log_lines ?scr = 10"
    by (simp_all add: init_steps_def InstallationScreen_init_def initial_state_def)
  have n: "length ?ss = 7" by simp
  from t h obtain scr' frames where
    r: "InstallationScreen_show ?scr = Inr (''success'', scr', frames)"
    and p: "steps scr' = ?ss" "current_step scr' = length (steps scr')"
    and c: "map fst frames
           = concat (map (\<lambda>i. [i, i]) [0..<length (steps scr')]) @ [length (steps scr')]"
    and l: "log_lines scr' = last_lines 10 (full_log (steps scr'))"
    and f: "map snd frames
                = map (\<lambda>k. last_lines 10 (take (Suc k) (full_log (steps scr'))))
                    [0..<2 * length (steps scr')]
                  @ [log_lines scr']"
    unfolding s by auto
  have 1: "current_step scr' = 7"
    using p by simp
  have 2: "map fst frames = [0, 0, 1, 1, 2, 2, 3, 3, 4, 4, 5, 5, 6, 6, 7]"
    unfolding c p(1) n by (simp add: upt_conv_Cons)
  have 3: "log_lines scr'
             = [''Starting: Creating partitions'', ''Completed: Creating partitions'',
                ''Starting: Setting up ZFS pool'', ''Completed: Setting up ZFS pool'',
                ''Starting: Installing base system'', ''Completed: Installing base system'',
                ''Starting: Installing bootloader'', ''Completed: Installing bootloader'',
                ''Starting: Finalizing installation'', ''Completed: Finalizing installation'']"
    unfolding l p(1) by (simp add: full_log_def last_lines_def)
  from 2 have 4: "length frames = 15"
    using length_map [of fst frames] by simp
  have "map snd frames ! 0 = [''Starting: Checking device fitness'']"
    "map snd frames ! 1
      = [''Starting: Checking device fitness'', ''Completed: Checking device fitness'']"
    unfolding f p(1) n by (simp_all add: full_log_def last_lines_def upt_conv_Cons)
  with 4 have 5: "snd (frames ! 0) = [''Starting: Checking device fitness'']"
    "snd (frames ! 1)
      = [''Starting: Checking device fitness'', ''Completed: Checking device fitness'']"
    by simp_all
  from t h have "run_iter ?a [press ''q''] = Next (?a \<lparr> current_screen := ''complete'' \<rparr>) [press ''q'']"
    by blast
  then have 6: "run_iter ?a [press ''q''] = Next (at_screen ''complete'' initial_state sample_facts) [press ''q'']"
    by (simp add: at_screen_def)
  show ?thesis
    by (intro conjI exI) (fact h 6 r 1 2 3 4 5)+
qed

end
